theory Spec2Isabelle
  imports Complex_Main
begin

section \<open>The voice session hook \<open>useLiveSession\<close> (src/hooks/useLiveSession.ts)\<close>

text \<open>
  The hook is event driven: every callback runs to completion on one control timeline and
  reads and writes a fixed set of React state cells and refs. The embedding is a record of
  those cells, one state transformer per callback, and an event type naming the callbacks
  the environment (user, browser, transport, timers) can invoke.

  Each call of \<open>attemptConnection\<close> builds its own client, audio context and session
  promise; the callbacks close over them. An attempt is named by a number, and the same
  number names the attempt's audio context, media stream and session.

  Not modelled: the sample values of audio buffers (only their length is used by the
  scheduling code), the capture callback \<open>onaudioprocess\<close> and the level meter loop
  \<open>updateVolume\<close> beyond the animation-frame handle it installs.
\<close>

subsection \<open>Data\<close>

datatype VoiceState = idle | listening | thinking | speaking

text \<open>An \<open>AudioBufferSourceNode\<close> after \<open>source.start(startTime)\<close>: identity, the
  context it belongs to, the start time passed to \<open>start\<close> and \<open>buffer.duration\<close>.\<close>

record source =
  src_id :: nat
  src_ctx :: nat
  src_start :: real
  src_duration :: real

definition src_end :: "source \<Rightarrow> real" where
  "src_end src = src_start src + src_duration src"

text \<open>One element of \<open>msg.toolCall.functionCalls\<close>. \<open>fc_args\<close> is \<open>None\<close> when the
  \<open>args\<close> object is missing.\<close>

record function_call =
  fc_id :: string
  fc_name :: string
  fc_args :: "(string \<times> string) list option"

text \<open>A \<open>LiveServerMessage\<close>. \<open>audioBinary\<close> is \<open>atob(audioData)\<close> for a present, non-empty
  \<open>msg.serverContent.modelTurn.parts[0].inlineData.data\<close>, taken to be well-formed
  base64, and \<open>None\<close> when the optional chain yields nothing or the empty string. A present
  \<open>toolCall\<close> carries its \<open>functionCalls\<close> list.\<close>

record message =
  turnComplete :: bool
  audioBinary :: "string option"
  toolCall :: "function_call list option"

text \<open>The value sent by \<open>session.sendToolResponse\<close>.\<close>

record tool_response =
  tr_session :: nat
  tr_id :: string
  tr_name :: string
  tr_result :: string

text \<open>Callbacks chained on a session promise after its creation.\<close>

datatype chained = CloseSession | SendToolResponse string string

text \<open>Callbacks handed to \<open>setTimeout\<close>.\<close>

datatype timer = Warmup | RetryAfterError | RetryAfterReject

record session_state =
  isConnected :: bool
  voiceState :: VoiceState
  isMuted :: bool
  volume :: "real \<times> real"
  error :: "string option"
  volumeRef :: "real \<times> real"
  isReady :: bool
  shouldBeConnected :: bool
  activeSession :: "nat option"
  retryCount :: nat
  audioContext :: "nat option"
  mediaStream :: "nat option"
  processor :: "nat option"
  inputSource :: "nat option"
  audioQueue :: "source list"
  nextStartTime :: real
  isPlaying :: bool
  rafId :: bool
  \<comment> \<open>the environment as far as the hook drives it\<close>
  nextAttempt :: nat
  nextSource :: nat
  timers :: "timer list"
  resolved :: "nat list"
  rejected :: "nat list"
  chainedOn :: "(nat \<times> chained) list"
  closedSessions :: "nat list"
  closedContexts :: "nat list"
  stoppedStreams :: "nat list"
  stoppedSources :: "nat list"
  started :: "source list"
  commands :: "string option list"
  toolResponses :: "tool_response list"

text \<open>The state of a freshly mounted hook.\<close>

definition initial :: session_state where
  "initial = \<lparr> isConnected = False, voiceState = idle, isMuted = False, volume = (0, 0),
     error = None, volumeRef = (0, 0), isReady = False, shouldBeConnected = False,
     activeSession = None, retryCount = 0, audioContext = None, mediaStream = None,
     processor = None, inputSource = None, audioQueue = [], nextStartTime = 0,
     isPlaying = False, rafId = False, nextAttempt = 0, nextSource = 0, timers = [],
     resolved = [], rejected = [], chainedOn = [], closedSessions = [],
     closedContexts = [], stoppedStreams = [], stoppedSources = [], started = [],
     commands = [], toolResponses = [] \<rparr>"

subsection \<open>\<open>disconnect\<close>\<close>

text \<open>Lines 61-119. Every release is guarded by the presence of the resource and every
  failure inside is caught, so the function is total. The context is closed only when its
  state is not already \<open>closed\<close>.\<close>

definition disconnect :: "session_state \<Rightarrow> session_state" where
  "disconnect s =
     s\<lparr> shouldBeConnected := False,
        isReady := False,
        closedSessions := (case activeSession s of
                             None \<Rightarrow> closedSessions s
                           | Some h \<Rightarrow> closedSessions s @ [h]),
        activeSession := None,
        isConnected := False,
        voiceState := idle,
        volume := (0, 0),
        volumeRef := (0, 0),
        rafId := False,
        processor := None,
        inputSource := None,
        stoppedStreams := (case mediaStream s of
                             None \<Rightarrow> stoppedStreams s
                           | Some m \<Rightarrow> stoppedStreams s @ [m]),
        mediaStream := None,
        closedContexts := (case audioContext s of
                             None \<Rightarrow> closedContexts s
                           | Some c \<Rightarrow> if c \<in> set (closedContexts s) then closedContexts s
                                      else closedContexts s @ [c]),
        audioContext := None,
        stoppedSources := stoppedSources s @ map src_id (audioQueue s),
        audioQueue := [],
        isPlaying := False,
        nextStartTime := 0 \<rparr>"

subsection \<open>\<open>connect\<close> and \<open>attemptConnection\<close>\<close>

definition set_error_and_disconnect :: "string \<Rightarrow> session_state \<Rightarrow> session_state" where
  "set_error_and_disconnect m s = disconnect (s\<lparr> error := Some m \<rparr>)"

text \<open>\<open>attemptConnection\<close> up to its wait for the microphone (lines 132-170): the guard, a
  fresh client and audio context, \<open>audioContextRef.current = audioCtx\<close>.\<close>

definition attemptConnection :: "session_state \<Rightarrow> session_state" where
  "attemptConnection s =
     (if \<not> shouldBeConnected s then s
      else s\<lparr> audioContext := Some (nextAttempt s), nextAttempt := Suc (nextAttempt s) \<rparr>)"

text \<open>The \<open>catch\<close> of \<open>attemptConnection\<close> (lines 425-431), reached when anything inside
  the \<open>try\<close> throws, such as a refused microphone.\<close>

definition initialization_error :: "session_state \<Rightarrow> session_state" where
  "initialization_error s =
     (if shouldBeConnected s then set_error_and_disconnect ''System Malfunction'' s else s)"

text \<open>\<open>attemptConnection\<close> of attempt \<open>n\<close> after \<open>getUserMedia\<close> has delivered its stream
  (lines 172-423): the second guard, the input pipeline, the session promise with its
  \<open>then\<close>/\<open>catch\<close> (run by the events below), and the first call of \<open>updateVolume\<close>.\<close>

definition microphone_granted :: "nat \<Rightarrow> session_state \<Rightarrow> session_state" where
  "microphone_granted n s =
     (if \<not> shouldBeConnected s
      then s\<lparr> stoppedStreams := stoppedStreams s @ [n],
              closedContexts := closedContexts s @ [n] \<rparr>
      else s\<lparr> mediaStream := Some n,
              inputSource := Some n,
              processor := Some n,
              rafId := (if audioContext s = None then rafId s else True) \<rparr>)"

text \<open>Lines 121-134.\<close>

definition connect :: "session_state \<Rightarrow> session_state" where
  "connect s =
     (if shouldBeConnected s then s
      else attemptConnection
             (s\<lparr> error := None, isMuted := False, shouldBeConnected := True,
                 retryCount := 0 \<rparr>))"

definition toggleMute :: "session_state \<Rightarrow> session_state" where
  "toggleMute s = s\<lparr> isMuted := \<not> isMuted s \<rparr>"

subsection \<open>The session promise\<close>

text \<open>\<open>sessionPromise.then(f)\<close> written inside a callback: \<open>f\<close> runs at once when the
  promise is already fulfilled, never when it is rejected, and otherwise waits.\<close>

definition run_chained :: "nat \<Rightarrow> chained \<Rightarrow> session_state \<Rightarrow> session_state" where
  "run_chained n c s =
     (case c of
        CloseSession \<Rightarrow> s\<lparr> closedSessions := closedSessions s @ [n] \<rparr>
      | SendToolResponse i nm \<Rightarrow>
          s\<lparr> toolResponses := toolResponses s @
                [\<lparr> tr_session = n, tr_id = i, tr_name = nm,
                   tr_result = ''ok, system generation started'' \<rparr>] \<rparr>)"

definition promise_then :: "nat \<Rightarrow> chained \<Rightarrow> session_state \<Rightarrow> session_state" where
  "promise_then n c s =
     (if n \<in> set (resolved s) then run_chained n c s
      else if n \<in> set (rejected s) then s
      else s\<lparr> chainedOn := chainedOn s @ [(n, c)] \<rparr>)"

text \<open>Fulfilment of the promise of attempt \<open>n\<close>: the \<open>then\<close> of lines 342-348, registered
  first, followed by the callbacks chained since, in their order.\<close>

definition promise_resolved :: "nat \<Rightarrow> session_state \<Rightarrow> session_state" where
  "promise_resolved n s =
     (if n \<in> set (resolved s) \<or> n \<in> set (rejected s) then s
      else
        let s1 = s\<lparr> resolved := resolved s @ [n] \<rparr>;
            s2 = (if shouldBeConnected s1 then s1\<lparr> activeSession := Some n \<rparr>
                  else s1\<lparr> closedSessions := closedSessions s1 @ [n] \<rparr>);
            mine = map snd (filter (\<lambda>p. fst p = n) (chainedOn s2));
            s3 = s2\<lparr> chainedOn := filter (\<lambda>p. fst p \<noteq> n) (chainedOn s2) \<rparr>
        in fold (run_chained n) mine s3)"

text \<open>Rejection of the promise of attempt \<open>n\<close>: the \<open>catch\<close> of lines 349-361.\<close>

definition promise_rejected :: "nat \<Rightarrow> session_state \<Rightarrow> session_state" where
  "promise_rejected n s =
     (if n \<in> set (resolved s) \<or> n \<in> set (rejected s) then s
      else
        let s1 = s\<lparr> rejected := rejected s @ [n],
                   chainedOn := filter (\<lambda>p. fst p \<noteq> n) (chainedOn s) \<rparr>
        in if shouldBeConnected s1
           then (if retryCount s1 < 3
                 then s1\<lparr> retryCount := retryCount s1 + 1,
                          timers := timers s1 @ [RetryAfterReject] \<rparr>
                 else set_error_and_disconnect ''Connection Failed'' s1)
           else s1)"

subsection \<open>Transport callbacks\<close>

text \<open>Lines 223-241.\<close>

definition onopen :: "nat \<Rightarrow> session_state \<Rightarrow> session_state" where
  "onopen n s =
     (if \<not> shouldBeConnected s then promise_then n CloseSession s
      else s\<lparr> isConnected := True, voiceState := listening,
              timers := timers s @ [Warmup] \<rparr>)"

text \<open>Lines 309-315.\<close>

definition onclose :: "nat \<Rightarrow> session_state \<Rightarrow> session_state" where
  "onclose n s = (if shouldBeConnected s then disconnect s else s)"

text \<open>Lines 316-337.\<close>

definition onerror :: "nat \<Rightarrow> session_state \<Rightarrow> session_state" where
  "onerror n s =
     (if shouldBeConnected s
      then (if retryCount s < 3
            then s\<lparr> retryCount := retryCount s + 1, isReady := False,
                    timers := timers s @ [RetryAfterError] \<rparr>
            else set_error_and_disconnect ''System Unreachable'' s)
      else s)"

subsection \<open>Timers\<close>

text \<open>The three \<open>setTimeout\<close> callbacks: lines 236-240, 327-331 and 355.\<close>

definition run_timer :: "timer \<Rightarrow> session_state \<Rightarrow> session_state" where
  "run_timer t s =
     (case t of
        Warmup \<Rightarrow> (if shouldBeConnected s then s\<lparr> isReady := True \<rparr> else s)
      | RetryAfterError \<Rightarrow> attemptConnection ((disconnect s)\<lparr> shouldBeConnected := True \<rparr>)
      | RetryAfterReject \<Rightarrow> attemptConnection s)"

definition timer_fires :: "nat \<Rightarrow> session_state \<Rightarrow> session_state" where
  "timer_fires k s =
     (if k < length (timers s)
      then run_timer (timers s ! k) (s\<lparr> timers := take k (timers s) @ drop (Suc k) (timers s) \<rparr>)
      else s)"

subsection \<open>\<open>onmessage\<close>\<close>

text \<open>\<open>onmessage\<close> is an \<open>async\<close> function without a \<open>try\<close>: an exception inside ends the
  callback where it is raised, keeps the writes made so far and rejects the promise the
  callback returned. The result is the exception, if any, with the state reached.\<close>

datatype js_error = RangeError | NotSupportedError | TypeError | HandlerError

text \<open>The caller's \<open>onCommand\<close>: absent, or a function that returns or throws. Its argument
  is \<open>fc.args['system_description']\<close>, \<open>None\<close> for \<open>undefined\<close>.\<close>

datatype outcome = Returns | Throws

type_synonym handler = "(string option \<Rightarrow> outcome) option"

text \<open>Lines 252-285 for the binary string \<open>bin\<close> at device clock \<open>now\<close>. \<open>new
  Int16Array(bytes.buffer)\<close> raises a \<open>RangeError\<close> on an odd byte length, and
  \<open>createBuffer\<close> refuses a length of zero.\<close>

definition handle_audio ::
  "real \<Rightarrow> nat \<Rightarrow> string \<Rightarrow> session_state \<Rightarrow> js_error option \<times> session_state" where
  "handle_audio now n bin s =
     (let s1 = s\<lparr> voiceState := speaking, isPlaying := True \<rparr>;
          len = length bin
      in if odd len then (Some RangeError, s1)
         else if len div 2 = 0 then (Some NotSupportedError, s1)
         else
           let dur = real (len div 2) / 24000;
               startTime = max now (nextStartTime s1);
               src = \<lparr> src_id = nextSource s1, src_ctx = n, src_start = startTime,
                       src_duration = dur \<rparr>
           in (None, s1\<lparr> nextStartTime := startTime + dur,
                         audioQueue := audioQueue s1 @ [src],
                         started := started s1 @ [src],
                         nextSource := Suc (nextSource s1) \<rparr>))"

text \<open>Lines 277-285, the \<open>onended\<close> of a source, at device clock \<open>now\<close>.\<close>

definition source_onended :: "source \<Rightarrow> real \<Rightarrow> session_state \<Rightarrow> session_state" where
  "source_onended src now s =
     (let q = remove1 src (audioQueue s)
      in if q = []
         then s\<lparr> audioQueue := q, isPlaying := False, voiceState := listening,
                 nextStartTime := now \<rparr>
         else s\<lparr> audioQueue := q \<rparr>)"

text \<open>Lines 290-306, the loop over \<open>msg.toolCall.functionCalls\<close>.\<close>

fun tool_calls ::
  "handler \<Rightarrow> nat \<Rightarrow> function_call list \<Rightarrow> session_state \<Rightarrow> js_error option \<times> session_state"
  where
  "tool_calls h n [] s = (None, s)"
| "tool_calls h n (fc # fcs) s =
     (if fc_name fc = ''generate_system''
      then (case fc_args fc of
              None \<Rightarrow> (Some TypeError, s)
            | Some args \<Rightarrow>
                let desc = map_of args ''system_description'' in
                (case h of
                   None \<Rightarrow>
                     tool_calls h n fcs
                       (promise_then n (SendToolResponse (fc_id fc) (fc_name fc)) s)
                 | Some f \<Rightarrow>
                     let s1 = s\<lparr> commands := commands s @ [desc] \<rparr> in
                     (case f desc of
                        Throws \<Rightarrow> (Some HandlerError, s1)
                      | Returns \<Rightarrow>
                          tool_calls h n fcs
                            (promise_then n (SendToolResponse (fc_id fc) (fc_name fc)) s1))))
      else tool_calls h n fcs s)"

text \<open>Lines 242-308.\<close>

definition onmessage ::
  "handler \<Rightarrow> real \<Rightarrow> nat \<Rightarrow> message \<Rightarrow> session_state \<Rightarrow> js_error option \<times> session_state"
  where
  "onmessage h now n msg s =
     (if \<not> shouldBeConnected s then (None, s)
      else
        let s1 = (if turnComplete msg \<and> \<not> isPlaying s then s\<lparr> voiceState := listening \<rparr>
                  else s);
            r = (case audioBinary msg of
                   None \<Rightarrow> (None, s1)
                 | Some bin \<Rightarrow> handle_audio now n bin s1)
        in case fst r of
             Some e \<Rightarrow> r
           | None \<Rightarrow> (case toolCall msg of
                        None \<Rightarrow> r
                      | Some fcs \<Rightarrow> tool_calls h n fcs (snd r)))"

subsection \<open>Events\<close>

text \<open>What the environment can do to a mounted hook whose caller supplied \<open>h\<close> as
  \<open>onCommand\<close>. Transport and promise events name the attempt whose closure they run in;
  clock readings are \<open>audioCtx.currentTime\<close> of that closure.\<close>

datatype event =
    Connect
  | Disconnect
  | ToggleMute
  | MicrophoneGranted nat
  | InitializationError
  | OnOpen nat
  | OnMessage nat message real
  | OnClose nat
  | OnError nat
  | PromiseResolved nat
  | PromiseRejected nat
  | TimerFires nat
  | SourceEnded source real

definition step :: "handler \<Rightarrow> session_state \<Rightarrow> event \<Rightarrow> session_state" where
  "step h s e =
     (case e of
        Connect \<Rightarrow> connect s
      | Disconnect \<Rightarrow> disconnect s
      | ToggleMute \<Rightarrow> toggleMute s
      | MicrophoneGranted n \<Rightarrow> microphone_granted n s
      | InitializationError \<Rightarrow> initialization_error s
      | OnOpen n \<Rightarrow> onopen n s
      | OnMessage n msg now \<Rightarrow> snd (onmessage h now n msg s)
      | OnClose n \<Rightarrow> onclose n s
      | OnError n \<Rightarrow> onerror n s
      | PromiseResolved n \<Rightarrow> promise_resolved n s
      | PromiseRejected n \<Rightarrow> promise_rejected n s
      | TimerFires k \<Rightarrow> timer_fires k s
      | SourceEnded src now \<Rightarrow> source_onended src now s)"

definition run :: "handler \<Rightarrow> session_state \<Rightarrow> event list \<Rightarrow> session_state" where
  "run h s es = foldl (step h) s es"

subsection \<open>Notions used by the properties\<close>

text \<open>Full teardown: what \<open>disconnect\<close> leaves behind in the cells it owns.\<close>

definition torn_down :: "session_state \<Rightarrow> bool" where
  "torn_down s \<longleftrightarrow>
     \<not> shouldBeConnected s \<and> \<not> isReady s \<and> activeSession s = None \<and> \<not> isConnected s \<and>
     voiceState s = idle \<and> volume s = (0, 0) \<and> volumeRef s = (0, 0) \<and> \<not> rafId s \<and>
     processor s = None \<and> inputSource s = None \<and> mediaStream s = None \<and>
     audioContext s = None \<and> audioQueue s = [] \<and> \<not> isPlaying s \<and> nextStartTime s = 0"

text \<open>An on-error of attempt \<open>n\<close> followed by the expiry of the backoff timer it has just
  scheduled (the last of the pending timers).\<close>

definition retry_round :: "nat \<Rightarrow> session_state \<Rightarrow> session_state" where
  "retry_round n s = timer_fires (length (timers s)) (onerror n s)"

text \<open>Events that neither tear the pipeline down nor touch the playback cells.\<close>

fun quiet :: "event \<Rightarrow> bool" where
  "quiet Connect = True"
| "quiet ToggleMute = True"
| "quiet (MicrophoneGranted n) = True"
| "quiet (OnOpen n) = True"
| "quiet (PromiseResolved n) = True"
| "quiet e = False"

text \<open>A stretch of one audio context's life, from clock reading \<open>t\<close> on: messages and
  playback completions with clock readings that do not decrease, every completion observed
  no earlier than the end of the source's window, and quiet events in between.\<close>

fun clock_ok :: "real \<Rightarrow> event list \<Rightarrow> bool" where
  "clock_ok t [] = True"
| "clock_ok t (OnMessage n msg now # es) = (t \<le> now \<and> clock_ok now es)"
| "clock_ok t (SourceEnded src now # es) = (t \<le> now \<and> src_end src \<le> now \<and> clock_ok now es)"
| "clock_ok t (e # es) = (quiet e \<and> clock_ok t es)"

text \<open>The relation between the cursor \<open>nextStartTimeRef\<close> and the source started last, for
  the sources started after the first \<open>k\<close>, at clock reading \<open>t\<close>.\<close>

definition cursor_inv :: "nat \<Rightarrow> real \<Rightarrow> session_state \<Rightarrow> bool" where
  "cursor_inv k t s \<longleftrightarrow>
     k \<le> length (started s) \<and>
     (k < length (started s) \<longrightarrow>
        (let l = last (started s)
         in 0 \<le> src_duration l \<and> src_end l \<le> nextStartTime s \<and>
            (nextStartTime s = src_end l \<or> nextStartTime s \<le> t) \<and>
            (l \<in> set (audioQueue s) \<or> src_end l \<le> t)))"

text \<open>The source that lines 264-273 build for the binary string \<open>bin\<close>, and the messages
  for which \<open>onmessage\<close> gets as far as starting one.\<close>

definition new_source :: "real \<Rightarrow> nat \<Rightarrow> string \<Rightarrow> session_state \<Rightarrow> source" where
  "new_source now n bin s =
     \<lparr> src_id = nextSource s, src_ctx = n, src_start = max now (nextStartTime s),
        src_duration = real (length bin div 2) / 24000 \<rparr>"

definition schedules :: "message \<Rightarrow> session_state \<Rightarrow> bool" where
  "schedules msg s \<longleftrightarrow>
     shouldBeConnected s \<and>
     (case audioBinary msg of None \<Rightarrow> False | Some bin \<Rightarrow> even (length bin) \<and> bin \<noteq> [])"

text \<open>The messages whose audio part, if any, raises no exception.\<close>

definition decodes :: "message \<Rightarrow> bool" where
  "decodes msg \<longleftrightarrow>
     (case audioBinary msg of None \<Rightarrow> True | Some bin \<Rightarrow> even (length bin) \<and> bin \<noteq> [])"

text \<open>Command invocations: the ones the loop acts on, the argument it extracts, the
  acknowledgment it sends, and whether the body of the loop gets as far as sending it.\<close>

definition is_generate :: "function_call \<Rightarrow> bool" where
  "is_generate fc \<longleftrightarrow> fc_name fc = ''generate_system''"

definition description :: "function_call \<Rightarrow> string option" where
  "description fc = (case fc_args fc of None \<Rightarrow> None
                     | Some args \<Rightarrow> map_of args ''system_description'')"

definition ack :: "nat \<Rightarrow> function_call \<Rightarrow> tool_response" where
  "ack n fc = \<lparr> tr_session = n, tr_id = fc_id fc, tr_name = fc_name fc,
                tr_result = ''ok, system generation started'' \<rparr>"

definition completes :: "handler \<Rightarrow> function_call \<Rightarrow> bool" where
  "completes h fc \<longleftrightarrow>
     fc_args fc \<noteq> None \<and>
     (case h of None \<Rightarrow> True | Some f \<Rightarrow> f (description fc) = Returns)"

text \<open>The invocations and the binary audio a message carries, the invocations the handler
  is called on (those that complete and, when it has arguments, the first that does not),
  the callback that the loop chains on the session promise for an invocation, and the
  acknowledgments still waiting on the promise of attempt \<open>n\<close>.\<close>

definition invocations :: "message \<Rightarrow> function_call list" where
  "invocations msg = (case toolCall msg of None \<Rightarrow> [] | Some fcs \<Rightarrow> fcs)"

definition payload :: "message \<Rightarrow> string" where
  "payload msg = (case audioBinary msg of None \<Rightarrow> [] | Some bin \<Rightarrow> bin)"

definition invoked :: "handler \<Rightarrow> function_call list \<Rightarrow> function_call list" where
  "invoked h gs =
     takeWhile (completes h) gs @
     (case dropWhile (completes h) gs of
        [] \<Rightarrow> []
      | fc # rest \<Rightarrow> if fc_args fc = None then [] else [fc])"

definition chained_ack :: "nat \<Rightarrow> function_call \<Rightarrow> nat \<times> chained" where
  "chained_ack n fc = (n, SendToolResponse (fc_id fc) (fc_name fc))"

definition waiting_acks :: "nat \<Rightarrow> session_state \<Rightarrow> tool_response list" where
  "waiting_acks n s =
     concat (map (\<lambda>p. case snd p of
                         CloseSession \<Rightarrow> []
                       | SendToolResponse i nm \<Rightarrow>
                           [\<lparr> tr_session = n, tr_id = i, tr_name = nm,
                              tr_result = ''ok, system generation started'' \<rparr>])
                 (filter (\<lambda>p. fst p = n) (chainedOn s)))"

subsection \<open>Scenarios\<close>

text \<open>A first attempt that has its microphone and has asked the transport to open.\<close>

definition connected_once :: "event list" where
  "connected_once = [Connect, MicrophoneGranted 0]"

text \<open>Three on-error events, each followed by its backoff timer and by the microphone of
  the attempt that timer starts.\<close>

definition three_errors :: "event list" where
  "three_errors =
     [Connect, MicrophoneGranted 0,
      OnError 0, TimerFires 0, MicrophoneGranted 1,
      OnError 1, TimerFires 0, MicrophoneGranted 2,
      OnError 2, TimerFires 0, MicrophoneGranted 3]"

text \<open>Four attempts whose session promise is rejected, with the backoff timers between.\<close>

definition four_rejections :: "event list" where
  "four_rejections =
     [Connect, MicrophoneGranted 0,
      PromiseRejected 0, TimerFires 0, MicrophoneGranted 1,
      PromiseRejected 1, TimerFires 0, MicrophoneGranted 2,
      PromiseRejected 2, TimerFires 0, MicrophoneGranted 3,
      PromiseRejected 3]"

text \<open>A session that is open and whose handle is installed.\<close>

definition session_open :: "event list" where
  "session_open = [Connect, MicrophoneGranted 0, OnOpen 0, PromiseResolved 0]"

text \<open>A \<open>disconnect\<close> while the first attempt waits for its transport to open.\<close>

definition cancelled_in_flight :: "event list" where
  "cancelled_in_flight = [Connect, MicrophoneGranted 0, Disconnect]"

text \<open>Two callers: one whose \<open>onCommand\<close> returns and one whose \<open>onCommand\<close> throws.\<close>

definition accepting_handler :: handler where
  "accepting_handler = Some (\<lambda>d. Returns)"

definition failing_handler :: handler where
  "failing_handler = Some (\<lambda>d. Throws)"

text \<open>A message with one \<open>generate_system\<close> invocation, one with an invocation of another
  name, and one with four bytes of audio (two samples, 1/12000 s).\<close>

definition generate_call :: function_call where
  "generate_call = \<lparr> fc_id = ''call-1'', fc_name = ''generate_system'',
     fc_args = Some [(''system_description'', ''warp drive'')] \<rparr>"

definition other_call :: function_call where
  "other_call = \<lparr> fc_id = ''call-2'', fc_name = ''open_pod_bay_doors'', fc_args = Some [] \<rparr>"

definition generate_request :: message where
  "generate_request = \<lparr> turnComplete = False, audioBinary = None,
     toolCall = Some [generate_call] \<rparr>"

definition audio_frame :: message where
  "audio_frame = \<lparr> turnComplete = False, audioBinary = Some ''abcd'', toolCall = None \<rparr>"

text \<open>The source that the first \<open>audio_frame\<close> of a session starts at clock reading 1.\<close>

definition first_source :: source where
  "first_source = \<lparr> src_id = 0, src_ctx = 0, src_start = 1, src_duration = 1 / 12000 \<rparr>"

text \<open>A frame is playing when the user disconnects.\<close>

definition disconnect_while_speaking :: "event list" where
  "disconnect_while_speaking = session_open @ [OnMessage 0 audio_frame 1, Disconnect]"

text \<open>The user disconnects while the first attempt waits for its transport and connects
  again before that transport answers; then the first attempt's promise is fulfilled, or
  its on-open fires.\<close>

definition reconnect_before_resolution :: "event list" where
  "reconnect_before_resolution =
     [Connect, MicrophoneGranted 0, Disconnect, Connect, PromiseResolved 0]"

definition reconnect_before_open :: "event list" where
  "reconnect_before_open = [Connect, MicrophoneGranted 0, Disconnect, Connect, OnOpen 0]"

text \<open>A second session after \<open>disconnect_while_speaking\<close>, whose first frame arrives when
  the new context's clock reads 1/2: without and with the completion of the first
  session's source delivered after the disconnect, at reading 2 of the old clock.\<close>

definition second_session :: "event list" where
  "second_session =
     [Connect, MicrophoneGranted 1, OnOpen 1, PromiseResolved 1,
      OnMessage 1 audio_frame (1 / 2)]"

definition late_completion :: "event list" where
  "late_completion = disconnect_while_speaking @ [SourceEnded first_source 2]"

text \<open>An attempt whose transport is open while its promise is still pending, and one whose
  promise has been rejected once.\<close>

definition open_pending :: "event list" where
  "open_pending = [Connect, MicrophoneGranted 0, OnOpen 0]"

definition rejected_once :: "event list" where
  "rejected_once = [Connect, MicrophoneGranted 0, PromiseRejected 0]"

text \<open>A message with a turn-complete marker, a frame of audio and three invocations, the
  middle one of another name; and one with a turn-complete marker and that invocation
  alone.\<close>

definition second_call :: function_call where
  "second_call = \<lparr> fc_id = ''call-3'', fc_name = ''generate_system'',
     fc_args = Some [(''system_description'', ''V8 engine'')] \<rparr>"

definition mixed_message :: message where
  "mixed_message = \<lparr> turnComplete = True, audioBinary = Some ''abcd'',
     toolCall = Some [generate_call, other_call, second_call] \<rparr>"

definition turn_complete_message :: message where
  "turn_complete_message = \<lparr> turnComplete = True, audioBinary = None,
     toolCall = Some [other_call] \<rparr>"

section \<open>Properties\<close>

subsection \<open>Evaluation and frame lemmas\<close>

lemmas hook_defs = run_def step_def connect_def disconnect_def attemptConnection_def
  microphone_granted_def initialization_error_def set_error_and_disconnect_def
  onopen_def onclose_def onerror_def promise_then_def promise_resolved_def
  promise_rejected_def run_chained_def run_timer_def timer_fires_def onmessage_def
  handle_audio_def source_onended_def toggleMute_def initial_def

lemma run_Nil: "run h s [] = s"
  by (simp add: run_def)

lemma run_Cons: "run h s (e # es) = run h (step h s e) es"
  by (simp add: run_def)

lemma run_snoc: "run h s (es @ [e]) = step h (run h s es) e"
  by (simp add: run_def)

lemma run_chained_frame:
  "retryCount (run_chained n c s) = retryCount s"
  "error (run_chained n c s) = error s"
  "shouldBeConnected (run_chained n c s) = shouldBeConnected s"
  "activeSession (run_chained n c s) = activeSession s"
  "isConnected (run_chained n c s) = isConnected s"
  "voiceState (run_chained n c s) = voiceState s"
  "isPlaying (run_chained n c s) = isPlaying s"
  "audioQueue (run_chained n c s) = audioQueue s"
  "nextStartTime (run_chained n c s) = nextStartTime s"
  "started (run_chained n c s) = started s"
  "resolved (run_chained n c s) = resolved s"
  "rejected (run_chained n c s) = rejected s"
  by (simp_all add: run_chained_def split: chained.splits)

lemma fold_run_chained_frame:
  "retryCount (fold (run_chained n) cs s) = retryCount s"
  "error (fold (run_chained n) cs s) = error s"
  "shouldBeConnected (fold (run_chained n) cs s) = shouldBeConnected s"
  "activeSession (fold (run_chained n) cs s) = activeSession s"
  "isConnected (fold (run_chained n) cs s) = isConnected s"
  "voiceState (fold (run_chained n) cs s) = voiceState s"
  "isPlaying (fold (run_chained n) cs s) = isPlaying s"
  "audioQueue (fold (run_chained n) cs s) = audioQueue s"
  "nextStartTime (fold (run_chained n) cs s) = nextStartTime s"
  "started (fold (run_chained n) cs s) = started s"
  by (induction cs arbitrary: s; simp add: run_chained_frame)+

lemma promise_then_frame:
  "retryCount (promise_then n c s) = retryCount s"
  "error (promise_then n c s) = error s"
  "shouldBeConnected (promise_then n c s) = shouldBeConnected s"
  "activeSession (promise_then n c s) = activeSession s"
  "isConnected (promise_then n c s) = isConnected s"
  "voiceState (promise_then n c s) = voiceState s"
  "isPlaying (promise_then n c s) = isPlaying s"
  "audioQueue (promise_then n c s) = audioQueue s"
  "nextStartTime (promise_then n c s) = nextStartTime s"
  "started (promise_then n c s) = started s"
  "resolved (promise_then n c s) = resolved s"
  "rejected (promise_then n c s) = rejected s"
  by (simp_all add: promise_then_def run_chained_frame)

lemma tool_calls_preserves:
  assumes "\<And>c s. f (promise_then n c s) = f s"
    and "\<And>s x. f (s\<lparr> commands := x \<rparr>) = f s"
  shows "f (snd (tool_calls h n fcs s)) = f s"
  by (induction fcs arbitrary: s)
     (auto simp: assms Let_def split: option.splits outcome.splits)

lemma tool_calls_frame:
  "retryCount (snd (tool_calls h n fcs s)) = retryCount s"
  "error (snd (tool_calls h n fcs s)) = error s"
  "shouldBeConnected (snd (tool_calls h n fcs s)) = shouldBeConnected s"
  "activeSession (snd (tool_calls h n fcs s)) = activeSession s"
  "isConnected (snd (tool_calls h n fcs s)) = isConnected s"
  "voiceState (snd (tool_calls h n fcs s)) = voiceState s"
  "isPlaying (snd (tool_calls h n fcs s)) = isPlaying s"
  "audioQueue (snd (tool_calls h n fcs s)) = audioQueue s"
  "nextStartTime (snd (tool_calls h n fcs s)) = nextStartTime s"
  "started (snd (tool_calls h n fcs s)) = started s"
  by (rule tool_calls_preserves; simp add: promise_then_frame)+

lemma handle_audio_frame:
  "retryCount (snd (handle_audio now n bin s)) = retryCount s"
  "error (snd (handle_audio now n bin s)) = error s"
  "shouldBeConnected (snd (handle_audio now n bin s)) = shouldBeConnected s"
  "activeSession (snd (handle_audio now n bin s)) = activeSession s"
  "isConnected (snd (handle_audio now n bin s)) = isConnected s"
  by (simp_all add: handle_audio_def Let_def)

lemma onmessage_frame:
  "retryCount (snd (onmessage h now n msg s)) = retryCount s"
  "error (snd (onmessage h now n msg s)) = error s"
  "shouldBeConnected (snd (onmessage h now n msg s)) = shouldBeConnected s"
  "activeSession (snd (onmessage h now n msg s)) = activeSession s"
  "isConnected (snd (onmessage h now n msg s)) = isConnected s"
  by (simp_all add: onmessage_def Let_def tool_calls_frame handle_audio_frame
      split: option.splits)

lemma timer_fires_retryCount: "retryCount (timer_fires k s) = retryCount s"
  by (simp add: timer_fires_def run_timer_def attemptConnection_def disconnect_def
      split: timer.splits)

lemma timer_fires_error: "error (timer_fires k s) = error s"
  by (simp add: timer_fires_def run_timer_def attemptConnection_def disconnect_def
      split: timer.splits)

lemma promise_resolved_retryCount: "retryCount (promise_resolved n s) = retryCount s"
  by (simp add: promise_resolved_def Let_def fold_run_chained_frame)

lemma promise_resolved_error: "error (promise_resolved n s) = error s"
  by (simp add: promise_resolved_def Let_def fold_run_chained_frame)

lemma retryCount_step:
  "retryCount s < retryCount (step h s e) \<Longrightarrow>
     shouldBeConnected s \<and> retryCount (step h s e) = retryCount s + 1 \<and>
     (\<exists>n. e = OnError n \<or> e = PromiseRejected n)"
  by (cases e)
     (auto simp: step_def connect_def attemptConnection_def disconnect_def toggleMute_def
        microphone_granted_def initialization_error_def set_error_and_disconnect_def
        onopen_def promise_then_frame onmessage_frame onclose_def onerror_def
        promise_resolved_retryCount promise_rejected_def Let_def timer_fires_retryCount
        source_onended_def split: if_splits)

subsection \<open>The retry counter across \<open>disconnect\<close>\<close>

text \<open>
  C5, as stated, at a concrete state: after one counted transport error the retry counter
  is 1, and \<open>disconnect\<close> does not reset it to 0.
\<close>

theorem disconnect_resets_retryCount_counterexample:
  "retryCount (disconnect (run None initial [Connect, MicrophoneGranted 0, OnError 0])) = 1"
  by (simp add: hook_defs)

text \<open>
  C5 (amended): \<open>disconnect\<close> leaves the retry counter as it is, and the next \<open>connect\<close>
  resets it to 0. The counter increases only while the connection intent is true, by one,
  and only in the two failure callbacks of \<open>attemptConnection\<close>: the transport's on-error
  and the rejection of the session promise.
\<close>

theorem retryCount_disconnect_and_increase:
  "retryCount (disconnect s) = retryCount s \<and>
   retryCount (connect (disconnect s)) = 0 \<and>
   (retryCount s < retryCount (step h s e) \<longrightarrow>
      shouldBeConnected s \<and> retryCount (step h s e) = retryCount s + 1 \<and>
      (\<exists>n. e = OnError n \<or> e = PromiseRejected n))"
proof -
  have "retryCount (disconnect s) = retryCount s"
    by (simp add: disconnect_def)
  moreover have "retryCount (connect (disconnect s)) = 0"
    by (simp add: connect_def disconnect_def attemptConnection_def)
  ultimately show ?thesis
    using retryCount_step [of s h e] by blast
qed

theorem retryCount_disconnect_and_increase_witness:
  "retryCount (run None initial [Connect, MicrophoneGranted 0])
     < retryCount (step None (run None initial [Connect, MicrophoneGranted 0]) (OnError 0)) \<and>
   shouldBeConnected (run None initial [Connect, MicrophoneGranted 0]) \<and>
   retryCount (step None (run None initial [Connect, MicrophoneGranted 0]) (OnError 0)) = 1"
  using retryCount_disconnect_and_increase
          [of "run None initial [Connect, MicrophoneGranted 0]" None "OnError 0"]
  by (simp add: hook_defs)

subsection \<open>The last error across \<open>disconnect\<close>\<close>

lemma error_step:
  "error s \<noteq> None \<Longrightarrow> error (step h s e) = None \<Longrightarrow> e = Connect \<and> \<not> shouldBeConnected s"
  by (cases e)
     (auto simp: step_def connect_def attemptConnection_def disconnect_def toggleMute_def
        microphone_granted_def initialization_error_def set_error_and_disconnect_def
        onopen_def promise_then_frame onmessage_frame onclose_def onerror_def
        promise_resolved_error promise_rejected_def Let_def timer_fires_error
        source_onended_def split: if_splits)

text \<open>
  C10: \<open>disconnect\<close> neither clears nor overwrites the last error, so a terminal error
  stays readable after full teardown. A stored error is cleared by no event other than a
  \<open>connect\<close> made while the intent is false, and a \<open>connect\<close> after \<open>disconnect\<close> does
  clear it.
\<close>

theorem disconnect_keeps_error:
  "error (disconnect s) = error s \<and>
   error (connect (disconnect s)) = None \<and>
   (error s \<noteq> None \<and> error (step h s e) = None \<longrightarrow> e = Connect \<and> \<not> shouldBeConnected s)"
proof -
  have "error (disconnect s) = error s"
    by (simp add: disconnect_def)
  moreover have "error (connect (disconnect s)) = None"
    by (simp add: connect_def disconnect_def attemptConnection_def)
  ultimately show ?thesis
    using error_step [of s h e] by blast
qed

theorem disconnect_keeps_error_witness:
  "error (run None initial [Connect, InitializationError]) = Some ''System Malfunction'' \<and>
   error (disconnect (run None initial [Connect, InitializationError]))
     = Some ''System Malfunction'' \<and>
   error (step None (run None initial [Connect, InitializationError]) Connect) = None \<and>
   \<not> shouldBeConnected (run None initial [Connect, InitializationError])"
  using disconnect_keeps_error
          [of "run None initial [Connect, InitializationError]" None Connect]
  by (simp add: hook_defs)

subsection \<open>Bounded retries\<close>

lemma disconnect_torn_down: "torn_down (disconnect s)"
  by (simp add: torn_down_def disconnect_def)

lemma retryCount_step_le: "retryCount s \<le> 3 \<Longrightarrow> retryCount (step h s e) \<le> 3"
  by (cases e)
     (auto simp: step_def connect_def attemptConnection_def disconnect_def toggleMute_def
        microphone_granted_def initialization_error_def set_error_and_disconnect_def
        onopen_def promise_then_frame onmessage_frame onclose_def onerror_def
        promise_resolved_retryCount promise_rejected_def Let_def timer_fires_retryCount
        source_onended_def split: if_splits)

lemma retryCount_run_le: "retryCount s \<le> 3 \<Longrightarrow> retryCount (run h s es) \<le> 3"
  by (induction es arbitrary: s) (simp_all add: run_Nil run_Cons retryCount_step_le)

lemma retryCount_step_change:
  "retryCount (step h s e) \<noteq> retryCount s \<Longrightarrow>
     e = Connect \<or> (\<exists>n. e = OnError n \<or> e = PromiseRejected n)"
  by (cases e)
     (auto simp: step_def disconnect_def toggleMute_def
        microphone_granted_def initialization_error_def set_error_and_disconnect_def
        onopen_def promise_then_frame onmessage_frame onclose_def 
        promise_resolved_retryCount Let_def timer_fires_retryCount
        source_onended_def split: if_splits)

lemma onerror_exhausted:
  "shouldBeConnected s \<Longrightarrow> retryCount s = 3 \<Longrightarrow>
     error (onerror n s) = Some ''System Unreachable'' \<and> torn_down (onerror n s)"
  by (simp add: onerror_def set_error_and_disconnect_def disconnect_torn_down)
     (simp add: disconnect_def)

lemma promise_rejected_exhausted:
  "shouldBeConnected s \<Longrightarrow> retryCount s = 3 \<Longrightarrow> n \<notin> set (resolved s) \<Longrightarrow>
   n \<notin> set (rejected s) \<Longrightarrow>
     error (promise_rejected n s) = Some ''Connection Failed'' \<and>
     torn_down (promise_rejected n s)"
  by (simp add: promise_rejected_def Let_def set_error_and_disconnect_def disconnect_torn_down)
     (simp add: disconnect_def)

lemma failure_counted:
  "shouldBeConnected s \<Longrightarrow> retryCount s < 3 \<Longrightarrow>
     retryCount (onerror n s) = retryCount s + 1 \<and> shouldBeConnected (onerror n s) \<and>
     error (onerror n s) = error s \<and>
     (n \<notin> set (resolved s) \<and> n \<notin> set (rejected s) \<longrightarrow>
        retryCount (promise_rejected n s) = retryCount s + 1 \<and>
        shouldBeConnected (promise_rejected n s) \<and>
        error (promise_rejected n s) = error s)"
  by (simp add: onerror_def promise_rejected_def Let_def)

text \<open>
  C2, as stated, at a concrete run: when the fourth transport failure of a connect cycle is
  a rejected session promise, the error that is set is not the unreachable message.
\<close>

theorem fourth_failure_unreachable_counterexample:
  "error (run None initial four_rejections) = Some ''Connection Failed'' \<and>
   error (run None initial four_rejections) \<noteq> Some ''System Unreachable''"
  by (simp add: four_rejections_def hook_defs)

text \<open>
  C2 (amended): a \<open>connect\<close> that is not a no-op resets the retry counter to 0, and the
  counter never exceeds 3. Only \<open>connect\<close> and the two failure callbacks change it; while
  the intent is true and the counter is below 3, a failure adds one and keeps the intent
  and the last error. On a failure with the counter at 3 and the intent true, that is on
  the fourth counted failure of the cycle, the session sets a terminal error and is torn
  down in full, intent included: the error is "System Unreachable" when the failure is an
  on-error event and "Connection Failed" when it is a rejected session promise.
\<close>

theorem retry_bound_and_exhaustion:
  "retryCount (run h initial es) \<le> 3 \<and>
   (\<not> shouldBeConnected s \<longrightarrow> retryCount (connect s) = 0) \<and>
   (retryCount (step h s e) \<noteq> retryCount s \<longrightarrow>
      e = Connect \<or> (\<exists>n. e = OnError n \<or> e = PromiseRejected n)) \<and>
   (shouldBeConnected s \<and> retryCount s < 3 \<longrightarrow>
      retryCount (onerror n s) = retryCount s + 1 \<and> shouldBeConnected (onerror n s) \<and>
      error (onerror n s) = error s \<and>
      (n \<notin> set (resolved s) \<and> n \<notin> set (rejected s) \<longrightarrow>
         retryCount (promise_rejected n s) = retryCount s + 1 \<and>
         shouldBeConnected (promise_rejected n s) \<and>
         error (promise_rejected n s) = error s)) \<and>
   (shouldBeConnected s \<and> retryCount s = 3 \<longrightarrow>
      error (onerror n s) = Some ''System Unreachable'' \<and> torn_down (onerror n s) \<and>
      (n \<notin> set (resolved s) \<and> n \<notin> set (rejected s) \<longrightarrow>
         error (promise_rejected n s) = Some ''Connection Failed'' \<and>
         torn_down (promise_rejected n s)))"
proof -
  have "retryCount (run h initial es) \<le> 3"
    by (rule retryCount_run_le) (simp add: initial_def)
  moreover have "\<not> shouldBeConnected s \<longrightarrow> retryCount (connect s) = 0"
    by (simp add: connect_def attemptConnection_def)
  ultimately show ?thesis
    using retryCount_step_change [of h s e] failure_counted [of s n]
      onerror_exhausted [of s n] promise_rejected_exhausted [of s n]
    by blast
qed

theorem retry_bound_and_exhaustion_witness:
  "\<not> shouldBeConnected initial \<and> retryCount (connect initial) = 0 \<and>
   shouldBeConnected (run None initial connected_once) \<and>
   retryCount (run None initial connected_once) < 3 \<and>
   retryCount (step None (run None initial connected_once) (OnError 0))
     \<noteq> retryCount (run None initial connected_once) \<and>
   retryCount (onerror 0 (run None initial connected_once)) = 1 \<and>
   0 \<notin> set (resolved (run None initial connected_once)) \<and>
   0 \<notin> set (rejected (run None initial connected_once)) \<and>
   retryCount (promise_rejected 0 (run None initial connected_once)) = 1 \<and>
   shouldBeConnected (run None initial three_errors) \<and>
   retryCount (run None initial three_errors) = 3 \<and>
   error (onerror 3 (run None initial three_errors)) = Some ''System Unreachable'' \<and>
   torn_down (onerror 3 (run None initial three_errors)) \<and>
   3 \<notin> set (resolved (run None initial three_errors)) \<and>
   3 \<notin> set (rejected (run None initial three_errors)) \<and>
   error (promise_rejected 3 (run None initial three_errors)) = Some ''Connection Failed'' \<and>
   torn_down (promise_rejected 3 (run None initial three_errors))"
  using retry_bound_and_exhaustion [where s = initial]
    retry_bound_and_exhaustion
      [where h = None and s = "run None initial connected_once" and e = "OnError 0" and n = 0]
    retry_bound_and_exhaustion [where s = "run None initial three_errors" and n = 3]
  by (simp add: connected_once_def three_errors_def hook_defs)

subsection \<open>Three on-error events\<close>

lemma retry_round_effect:
  assumes "shouldBeConnected s" and "retryCount s < 3"
  shows "retryCount (retry_round n s) = retryCount s + 1 \<and>
         shouldBeConnected (retry_round n s) \<and>
         nextAttempt (retry_round n s) = nextAttempt s + 1 \<and>
         error (retry_round n s) = error s \<and>
         timers (retry_round n s) = timers s"
  using assms
  by (simp add: retry_round_def onerror_def timer_fires_def run_timer_def
      attemptConnection_def disconnect_def nth_append)

lemma onerror_exhausted_frame:
  "shouldBeConnected s \<Longrightarrow> retryCount s = 3 \<Longrightarrow>
     nextAttempt (onerror n s) = nextAttempt s \<and> timers (onerror n s) = timers s"
  by (simp add: onerror_def set_error_and_disconnect_def disconnect_def)

text \<open>
  C3, as stated, at a concrete run: after exactly three on-error events, with the three
  reconnection attempts they cause, no error is set and nothing is torn down.
\<close>

theorem three_errors_terminal_counterexample:
  "error (run None initial three_errors) = None \<and>
   \<not> torn_down (run None initial three_errors) \<and>
   nextAttempt (run None initial three_errors) = 4"
  by (simp add: three_errors_def hook_defs torn_down_def)

text \<open>
  C3 (amended): after a connect, three on-error events, each followed by the expiry of its
  backoff timer, cause exactly three reconnection attempts; the session is then still
  trying to connect, with the retry counter at 3 and the last error as it was. A fourth
  on-error event sets the terminal error "System Unreachable" and performs full teardown,
  without a further attempt or timer.
\<close>

theorem three_errors_then_a_fourth:
  assumes "shouldBeConnected s" and "retryCount s = 0"
  shows "let s3 = retry_round n3 (retry_round n2 (retry_round n1 s)) in
           nextAttempt s3 = nextAttempt s + 3 \<and> retryCount s3 = 3 \<and>
           shouldBeConnected s3 \<and> error s3 = error s \<and> timers s3 = timers s \<and>
           error (onerror n4 s3) = Some ''System Unreachable'' \<and>
           torn_down (onerror n4 s3) \<and>
           nextAttempt (onerror n4 s3) = nextAttempt s + 3 \<and>
           timers (onerror n4 s3) = timers s"
proof -
  define s1 where "s1 = retry_round n1 s"
  define s2 where "s2 = retry_round n2 s1"
  define s3 where "s3 = retry_round n3 s2"
  have r1: "retryCount s1 = 1 \<and> shouldBeConnected s1 \<and> nextAttempt s1 = nextAttempt s + 1 \<and>
            error s1 = error s \<and> timers s1 = timers s"
    using retry_round_effect [of s n1] assms by (simp add: s1_def)
  have r2: "retryCount s2 = 2 \<and> shouldBeConnected s2 \<and> nextAttempt s2 = nextAttempt s + 2 \<and>
            error s2 = error s \<and> timers s2 = timers s"
    using retry_round_effect [of s1 n2] r1 by (simp add: s2_def)
  have r3: "retryCount s3 = 3 \<and> shouldBeConnected s3 \<and> nextAttempt s3 = nextAttempt s + 3 \<and>
            error s3 = error s \<and> timers s3 = timers s"
    using retry_round_effect [of s2 n3] r2 by (simp add: s3_def)
  have "error (onerror n4 s3) = Some ''System Unreachable'' \<and> torn_down (onerror n4 s3) \<and>
        nextAttempt (onerror n4 s3) = nextAttempt s + 3 \<and> timers (onerror n4 s3) = timers s"
    using onerror_exhausted [of s3 n4] onerror_exhausted_frame [of s3 n4] r3 by simp
  with r3 show ?thesis
    by (simp add: s1_def s2_def s3_def)
qed

theorem three_errors_then_a_fourth_witness:
  "shouldBeConnected (run None initial connected_once) \<and>
   retryCount (run None initial connected_once) = 0 \<and>
   nextAttempt (run None initial connected_once) = 1 \<and>
   nextAttempt (retry_round 2 (retry_round 1 (retry_round 0
      (run None initial connected_once)))) = 4 \<and>
   error (retry_round 2 (retry_round 1 (retry_round 0
      (run None initial connected_once)))) = None \<and>
   error (onerror 3 (retry_round 2 (retry_round 1 (retry_round 0
      (run None initial connected_once))))) = Some ''System Unreachable''"
  using three_errors_then_a_fourth
          [of "run None initial connected_once" 2 1 0 3]
  by (simp add: connected_once_def hook_defs Let_def)

subsection \<open>The messages of the last error\<close>

lemma error_step_messages:
  "error (step h s e) = error s \<or> error (step h s e) = None \<or>
   error (step h s e) = Some ''System Malfunction'' \<or>
   error (step h s e) = Some ''System Unreachable'' \<or>
   error (step h s e) = Some ''Connection Failed''"
  by (cases e)
     (auto simp: step_def connect_def attemptConnection_def disconnect_def toggleMute_def
        microphone_granted_def initialization_error_def set_error_and_disconnect_def
        onopen_def promise_then_frame onmessage_frame onclose_def onerror_def
        promise_resolved_error promise_rejected_def Let_def timer_fires_error
        source_onended_def split: if_splits)

text \<open>
  C7, as stated, at a concrete run: three on-error events followed by a rejected session
  promise leave a last error that is neither the initialization message nor the
  unreachable message.
\<close>

theorem two_messages_counterexample:
  "error (run None initial (three_errors @ [PromiseRejected 3])) = Some ''Connection Failed''"
  by (simp add: three_errors_def hook_defs)

text \<open>
  C7 (amended): in every run of the hook the last error is absent or one of three
  messages: "System Malfunction" (initialization failure), "System Unreachable" (retries
  exhausted on an on-error event) and "Connection Failed" (retries exhausted on a rejected
  session promise).
\<close>

theorem last_error_messages:
  "error (run h initial es) = None \<or>
   error (run h initial es) = Some ''System Malfunction'' \<or>
   error (run h initial es) = Some ''System Unreachable'' \<or>
   error (run h initial es) = Some ''Connection Failed''"
proof (induction es rule: rev_induct)
  case Nil
  show ?case by (simp add: run_Nil initial_def)
next
  case (snoc e es)
  then show ?case
    using error_step_messages [of h "run h initial es" e]
    by (auto simp: run_snoc)
qed

subsection \<open>A handle that resolves after the intent is gone\<close>

lemma fold_run_chained_closed:
  "\<exists>cs. closedSessions (fold (run_chained n) xs s) = closedSessions s @ cs"
proof (induction xs arbitrary: s)
  case Nil
  show ?case by simp
next
  case (Cons x xs)
  obtain cs where "closedSessions (fold (run_chained n) xs (run_chained n x s))
      = closedSessions (run_chained n x s) @ cs"
    using Cons.IH by blast
  moreover obtain ds where "closedSessions (run_chained n x s) = closedSessions s @ ds"
    by (cases x) (simp_all add: run_chained_def)
  ultimately show ?case by simp
qed

lemma timer_fires_activeSession:
  "activeSession (timer_fires k s) = Some n \<Longrightarrow> activeSession s = Some n"
  by (auto simp: timer_fires_def run_timer_def attemptConnection_def disconnect_def
      split: timer.splits if_splits)

lemma source_onended_activeSession:
  "activeSession (source_onended src now s) = activeSession s"
  by (simp add: source_onended_def Let_def)

lemma activeSession_step:
  "activeSession (step h s e) = Some n \<Longrightarrow> activeSession s \<noteq> Some n \<Longrightarrow>
     e = PromiseResolved n \<and> shouldBeConnected s"
  by (cases e)
     (auto dest: timer_fires_activeSession simp: step_def connect_def attemptConnection_def disconnect_def toggleMute_def
        microphone_granted_def initialization_error_def set_error_and_disconnect_def
        onopen_def promise_then_frame onmessage_frame onclose_def onerror_def
        promise_resolved_def promise_rejected_def Let_def fold_run_chained_frame
        source_onended_activeSession split: if_splits)

lemma stale_resolution:
  assumes "\<not> shouldBeConnected s" and "n \<notin> set (resolved s)" and "n \<notin> set (rejected s)"
  shows "activeSession (promise_resolved n s) = activeSession s \<and>
         (\<exists>cs. closedSessions (promise_resolved n s) = closedSessions s @ n # cs)"
proof -
  let ?s2 = "s\<lparr> resolved := resolved s @ [n], closedSessions := closedSessions s @ [n] \<rparr>"
  let ?mine = "map snd (filter (\<lambda>p. fst p = n) (chainedOn s))"
  let ?s3 = "?s2\<lparr> chainedOn := filter (\<lambda>p. fst p \<noteq> n) (chainedOn s) \<rparr>"
  have eq: "promise_resolved n s = fold (run_chained n) ?mine ?s3"
    using assms by (simp add: promise_resolved_def Let_def)
  obtain cs where "closedSessions (fold (run_chained n) ?mine ?s3) = closedSessions ?s3 @ cs"
    using fold_run_chained_closed by blast
  then show ?thesis
    by (simp add: eq fold_run_chained_frame)
qed

lemma stale_open:
  assumes "\<not> shouldBeConnected s"
  shows "isConnected (onopen n s) = isConnected s \<and> voiceState (onopen n s) = voiceState s \<and>
         activeSession (onopen n s) = activeSession s \<and>
         \<not> shouldBeConnected (onopen n s) \<and>
         (n \<in> set (resolved s) \<longrightarrow> closedSessions (onopen n s) = closedSessions s @ [n]) \<and>
         (n \<notin> set (resolved s) \<and> n \<notin> set (rejected s) \<longrightarrow>
            closedSessions (onopen n s) = closedSessions s \<and>
            chainedOn (onopen n s) = chainedOn s @ [(n, CloseSession)] \<and>
            n \<notin> set (resolved (onopen n s)) \<and> n \<notin> set (rejected (onopen n s)))"
  using assms by (simp add: onopen_def promise_then_def run_chained_def)

lemma fold_run_chained_close_last:
  "closedSessions (fold (run_chained n) (xs @ [CloseSession]) s)
     = closedSessions (fold (run_chained n) xs s) @ [n]"
  by (simp add: run_chained_def)

lemma stale_open_then_resolution:
  assumes "\<not> shouldBeConnected s" and "n \<notin> set (resolved s)" and "n \<notin> set (rejected s)"
  shows "activeSession (promise_resolved n (onopen n s)) = activeSession s \<and>
         (\<exists>cs. closedSessions (promise_resolved n (onopen n s)) = closedSessions s @ n # cs @ [n])"
proof -
  let ?o = "s\<lparr> chainedOn := chainedOn s @ [(n, CloseSession)] \<rparr>"
  have o: "onopen n s = ?o"
    using assms by (simp add: onopen_def promise_then_def)
  let ?mine = "map snd (filter (\<lambda>p. fst p = n) (chainedOn s))"
  let ?s3 = "s\<lparr> resolved := resolved s @ [n], closedSessions := closedSessions s @ [n],
                chainedOn := filter (\<lambda>p. fst p \<noteq> n) (chainedOn s) \<rparr>"
  have eq: "promise_resolved n ?o = fold (run_chained n) (?mine @ [CloseSession]) ?s3"
    using assms by (simp add: promise_resolved_def Let_def)
  obtain cs where "closedSessions (fold (run_chained n) ?mine ?s3) = closedSessions ?s3 @ cs"
    using fold_run_chained_closed by blast
  then have "closedSessions (promise_resolved n ?o) = closedSessions s @ n # cs @ [n]"
    unfolding eq fold_run_chained_close_last by simp
  moreover have "activeSession (promise_resolved n ?o) = activeSession s"
    unfolding eq by (simp add: fold_run_chained_frame run_chained_frame)
  ultimately show ?thesis
    unfolding o by blast
qed

text \<open>
  When the connection intent is false at the moment the session promise of an attempt is
  fulfilled, the resolved session is closed at once and the active handle stays as it
  was. An on-open that fires while the intent is false marks nothing connected and leaves
  the voice state alone; it closes the session, at once when the promise is already
  fulfilled and on fulfilment otherwise. No event other than the fulfilment of an
  attempt's promise under a true intent installs that attempt's handle.
\<close>

lemma stale_handle_when_intent_false:
  assumes "\<not> shouldBeConnected s"
  shows "(n \<notin> set (resolved s) \<and> n \<notin> set (rejected s) \<longrightarrow>
            activeSession (promise_resolved n s) = activeSession s \<and>
            (\<exists>cs. closedSessions (promise_resolved n s) = closedSessions s @ n # cs) \<and>
            activeSession (promise_resolved n (onopen n s)) = activeSession s \<and>
            (\<exists>cs. closedSessions (promise_resolved n (onopen n s))
                    = closedSessions s @ n # cs @ [n])) \<and>
         isConnected (onopen n s) = isConnected s \<and>
         voiceState (onopen n s) = voiceState s \<and>
         activeSession (onopen n s) = activeSession s \<and>
         (n \<in> set (resolved s) \<longrightarrow> closedSessions (onopen n s) = closedSessions s @ [n]) \<and>
         activeSession (disconnect s0) = None \<and> \<not> isConnected (disconnect s0) \<and>
         \<not> shouldBeConnected (disconnect s0) \<and>
         (activeSession (step h s1 e) = Some n \<and> activeSession s1 \<noteq> Some n \<longrightarrow>
            e = PromiseResolved n \<and> shouldBeConnected s1)"
proof -
  have "activeSession (disconnect s0) = None \<and> \<not> isConnected (disconnect s0) \<and>
        \<not> shouldBeConnected (disconnect s0)"
    by (simp add: disconnect_def)
  then show ?thesis
    using stale_resolution [of s n] stale_open [of s n] stale_open_then_resolution [of s n]
      activeSession_step [of h s1 e n] assms
    by blast
qed

lemma stale_handle_when_intent_false_example:
  "\<not> shouldBeConnected (run None initial cancelled_in_flight) \<and>
   0 \<notin> set (resolved (run None initial cancelled_in_flight)) \<and>
   0 \<notin> set (rejected (run None initial cancelled_in_flight)) \<and>
   activeSession (promise_resolved 0 (run None initial cancelled_in_flight)) = None \<and>
   closedSessions (promise_resolved 0 (run None initial cancelled_in_flight)) = [0] \<and>
   \<not> isConnected (onopen 0 (run None initial cancelled_in_flight)) \<and>
   voiceState (onopen 0 (run None initial cancelled_in_flight)) = idle \<and>
   closedSessions (promise_resolved 0 (onopen 0 (run None initial cancelled_in_flight)))
     = [0, 0] \<and>
   activeSession (step None (run None initial connected_once) (PromiseResolved 0)) = Some 0 \<and>
   activeSession (run None initial connected_once) \<noteq> Some 0 \<and>
   shouldBeConnected (run None initial connected_once)"
  using stale_handle_when_intent_false
          [where s = "run None initial cancelled_in_flight" and n = 0 and h = None
             and ?s1.0 = "run None initial connected_once" and e = "PromiseResolved 0"]
  by (simp add: cancelled_in_flight_def connected_once_def hook_defs)

text \<open>
  C4 at a concrete run: the user disconnects while the first attempt waits for its
  transport (the active handle is absent) and connects again before the transport
  answers. Both guards read the one intent flag, which the second \<open>connect\<close> has set
  back to true. So when the first attempt's promise is fulfilled its handle is installed
  as the active handle and is not closed; once the second attempt's handle replaces it, a
  later \<open>disconnect\<close> closes the second session only and the first is never closed.
  Likewise the first attempt's on-open marks the hook connected and listening and closes
  nothing.
\<close>

theorem reconnect_installs_stale_handle:
  "activeSession (run None initial cancelled_in_flight) = None \<and>
   activeSession (run None initial reconnect_before_resolution) = Some 0 \<and>
   closedSessions (run None initial reconnect_before_resolution) = [] \<and>
   nextAttempt (run None initial reconnect_before_resolution) = 2 \<and>
   closedSessions (run None initial
      (reconnect_before_resolution @
         [MicrophoneGranted 1, OnOpen 1, PromiseResolved 1, Disconnect])) = [1] \<and>
   isConnected (run None initial reconnect_before_open) \<and>
   voiceState (run None initial reconnect_before_open) = listening \<and>
   closedSessions (run None initial (reconnect_before_open @ [PromiseResolved 0])) = []"
  by (simp add: cancelled_in_flight_def reconnect_before_resolution_def
      reconnect_before_open_def hook_defs)

subsection \<open>The loop over the invocations\<close>

lemma tool_calls_skip:
  "fc_name fc \<noteq> ''generate_system'' \<Longrightarrow> tool_calls h n (fc # fcs) s = tool_calls h n fcs s"
  by simp

lemma tool_calls_filter:
  "tool_calls h n fcs s = tool_calls h n (filter is_generate fcs) s"
  by (induction fcs arbitrary: s)
     (auto simp: is_generate_def Let_def split: option.splits outcome.splits)

lemma onmessage_filter:
  "onmessage h now n msg s
     = onmessage h now n (msg\<lparr> toolCall := map_option (filter is_generate) (toolCall msg) \<rparr>) s"
  using tool_calls_filter
  by (cases "toolCall msg") (simp_all add: onmessage_def Let_def split: option.splits)

lemma promise_then_logs:
  "commands (promise_then n c s) = commands s"
  "toolResponses (promise_then n (SendToolResponse i nm) s)
     = toolResponses s @
       (if n \<in> set (resolved s)
        then [\<lparr> tr_session = n, tr_id = i, tr_name = nm,
                tr_result = ''ok, system generation started'' \<rparr>]
        else [])"
  "chainedOn (promise_then n c s)
     = chainedOn s @
       (if n \<notin> set (resolved s) \<and> n \<notin> set (rejected s) then [(n, c)] else [])"
  by (simp_all add: promise_then_def run_chained_def split: chained.splits)

lemma tool_calls_other:
  "\<not> is_generate fc \<Longrightarrow> tool_calls h n (fc # gs) s = tool_calls h n gs s"
  by (simp add: is_generate_def)

lemma tool_calls_fails:
  assumes "is_generate fc" and "\<not> completes h fc"
  shows "tool_calls h n (fc # gs) s
           = (if fc_args fc = None then (Some TypeError, s)
              else (Some HandlerError, s\<lparr> commands := commands s @ [description fc] \<rparr>))"
proof (cases "fc_args fc")
  case None
  then show ?thesis
    using assms by (simp add: is_generate_def)
next
  case (Some args)
  then obtain f where "h = Some f" and "f (description fc) = Throws"
    using assms(2) by (cases h; cases "the h (description fc)") (auto simp: completes_def)
  then show ?thesis
    using assms Some by (simp add: is_generate_def description_def)
qed

lemma tool_calls_step:
  assumes "is_generate fc" and "completes h fc"
  shows "tool_calls h n (fc # gs) s
           = tool_calls h n gs
               (promise_then n (SendToolResponse (fc_id fc) (fc_name fc))
                  (s\<lparr> commands := commands s @ (if h = None then [] else [description fc]) \<rparr>))"
proof (cases h)
  case None
  then show ?thesis
    using assms
    by (cases "fc_args fc") (simp_all add: is_generate_def completes_def)
next
  case (Some f)
  then show ?thesis
    using assms
    by (cases "fc_args fc") (simp_all add: is_generate_def completes_def description_def)
qed

lemma invoked_simps:
  "invoked h [] = []"
  "completes h fc \<Longrightarrow> invoked h (fc # gs) = fc # invoked h gs"
  "\<not> completes h fc \<Longrightarrow> invoked h (fc # gs) = (if fc_args fc = None then [] else [fc])"
  by (simp_all add: invoked_def)

lemma loop_commands:
  "commands (snd (tool_calls h n gs s))
     = commands s @ (if h = None then []
                     else map description (invoked h (filter is_generate gs)))"
proof (induction gs arbitrary: s)
  case Nil
  show ?case by (simp add: invoked_simps)
next
  case (Cons fc gs)
  consider "\<not> is_generate fc" | "is_generate fc" "completes h fc"
    | "is_generate fc" "\<not> completes h fc"
    by blast
  then show ?case
  proof cases
    case 1
    then show ?thesis
      using Cons by (simp add: tool_calls_other del: tool_calls.simps)
  next
    case 2
    then show ?thesis
      using Cons
      by (simp add: tool_calls_step invoked_simps promise_then_logs del: tool_calls.simps)
  next
    case 3
    then show ?thesis
      by (auto simp: tool_calls_fails invoked_simps completes_def
          simp del: tool_calls.simps split: option.splits)
  qed
qed

lemma loop_exception:
  "fst (tool_calls h n gs s) = None \<longleftrightarrow> list_all (completes h) (filter is_generate gs)"
proof (induction gs arbitrary: s)
  case Nil
  show ?case by simp
next
  case (Cons fc gs)
  consider "\<not> is_generate fc" | "is_generate fc" "completes h fc"
    | "is_generate fc" "\<not> completes h fc"
    by blast
  then show ?case
  proof cases
    case 1
    then show ?thesis
      using Cons by (simp add: tool_calls_other del: tool_calls.simps)
  next
    case 2
    then show ?thesis
      using Cons by (simp add: tool_calls_step del: tool_calls.simps)
  next
    case 3
    then show ?thesis
      by (simp add: tool_calls_fails del: tool_calls.simps)
  qed
qed

lemma loop_responses:
  "toolResponses (snd (tool_calls h n gs s))
     = toolResponses s @
       (if n \<in> set (resolved s)
        then map (ack n) (takeWhile (completes h) (filter is_generate gs)) else [])"
proof (induction gs arbitrary: s)
  case Nil
  show ?case by simp
next
  case (Cons fc gs)
  consider "\<not> is_generate fc" | "is_generate fc" "completes h fc"
    | "is_generate fc" "\<not> completes h fc"
    by blast
  then show ?case
  proof cases
    case 1
    then show ?thesis
      using Cons by (simp add: tool_calls_other del: tool_calls.simps)
  next
    case 2
    then show ?thesis
      using Cons
      by (simp add: tool_calls_step promise_then_logs promise_then_frame ack_def
          del: tool_calls.simps)
  next
    case 3
    then show ?thesis
      by (simp add: tool_calls_fails del: tool_calls.simps)
  qed
qed

lemma loop_chained:
  "chainedOn (snd (tool_calls h n gs s))
     = chainedOn s @
       (if n \<notin> set (resolved s) \<and> n \<notin> set (rejected s)
        then map (chained_ack n) (takeWhile (completes h) (filter is_generate gs)) else [])"
proof (induction gs arbitrary: s)
  case Nil
  show ?case by simp
next
  case (Cons fc gs)
  consider "\<not> is_generate fc" | "is_generate fc" "completes h fc"
    | "is_generate fc" "\<not> completes h fc"
    by blast
  then show ?case
  proof cases
    case 1
    then show ?thesis
      using Cons by (simp add: tool_calls_other del: tool_calls.simps)
  next
    case 2
    then show ?thesis
      using Cons
      by (simp add: tool_calls_step promise_then_logs promise_then_frame chained_ack_def
          del: tool_calls.simps)
  next
    case 3
    then show ?thesis
      by (simp add: tool_calls_fails del: tool_calls.simps)
  qed
qed

subsection \<open>The playback schedule\<close>

lemma cursor_inv_cong:
  "started s' = started s \<Longrightarrow> nextStartTime s' = nextStartTime s \<Longrightarrow>
   audioQueue s' = audioQueue s \<Longrightarrow> cursor_inv k t s' = cursor_inv k t s"
  by (simp add: cursor_inv_def)

lemma cursor_inv_later: "cursor_inv k t s \<Longrightarrow> t \<le> t' \<Longrightarrow> cursor_inv k t' s"
  by (auto simp: cursor_inv_def Let_def)

lemma cursor_inv_start: "cursor_inv (length (started s)) t s"
  by (simp add: cursor_inv_def)

lemma handle_audio_fails:
  "odd (length bin) \<or> bin = [] \<Longrightarrow>
     started (snd (handle_audio now n bin s)) = started s \<and>
     nextStartTime (snd (handle_audio now n bin s)) = nextStartTime s \<and>
     audioQueue (snd (handle_audio now n bin s)) = audioQueue s \<and>
     fst (handle_audio now n bin s) \<noteq> None"
  by (auto simp: handle_audio_def Let_def)

lemma handle_audio_schedules:
  "even (length bin) \<Longrightarrow> bin \<noteq> [] \<Longrightarrow>
     started (snd (handle_audio now n bin s)) = started s @ [new_source now n bin s] \<and>
     audioQueue (snd (handle_audio now n bin s)) = audioQueue s @ [new_source now n bin s] \<and>
     nextStartTime (snd (handle_audio now n bin s)) = src_end (new_source now n bin s) \<and>
     fst (handle_audio now n bin s) = None"
  by (cases bin) (auto simp: handle_audio_def Let_def new_source_def src_end_def)

lemma handle_audio_inv:
  assumes "cursor_inv k t s" and "t \<le> now"
  shows "cursor_inv k now (snd (handle_audio now n bin s))"
proof (cases "even (length bin) \<and> bin \<noteq> []")
  case False
  then have "cursor_inv k now (snd (handle_audio now n bin s)) = cursor_inv k now s"
    using handle_audio_fails [of bin now n s] by (intro cursor_inv_cong) auto
  then show ?thesis
    using assms cursor_inv_later by blast
next
  case True
  then show ?thesis
    using handle_audio_schedules [of bin now n s] assms
    by (auto simp: cursor_inv_def Let_def new_source_def src_end_def)
qed

lemma onmessage_without_audio:
  assumes "\<not> schedules msg s"
  shows "started (snd (onmessage h now n msg s)) = started s \<and>
         audioQueue (snd (onmessage h now n msg s)) = audioQueue s \<and>
         nextStartTime (snd (onmessage h now n msg s)) = nextStartTime s"
proof (cases "shouldBeConnected s")
  case False
  then show ?thesis by (simp add: onmessage_def)
next
  case intent: True
  show ?thesis
  proof (cases "audioBinary msg")
    case None
    then show ?thesis
      using intent by (simp add: onmessage_def Let_def tool_calls_frame split: option.splits)
  next
    case (Some bin)
    let ?s1 = "if turnComplete msg \<and> \<not> isPlaying s then s\<lparr> voiceState := listening \<rparr> else s"
    have "odd (length bin) \<or> bin = []"
      using assms intent Some by (simp add: schedules_def)
    then have "fst (handle_audio now n bin ?s1) \<noteq> None"
      "started (snd (handle_audio now n bin ?s1)) = started ?s1"
      "audioQueue (snd (handle_audio now n bin ?s1)) = audioQueue ?s1"
      "nextStartTime (snd (handle_audio now n bin ?s1)) = nextStartTime ?s1"
      using handle_audio_fails [of bin now n ?s1] by auto
    then show ?thesis
      using intent Some by (auto simp: onmessage_def Let_def)
  qed
qed

lemma onmessage_with_audio:
  assumes "schedules msg s"
  shows "\<exists>bin. audioBinary msg = Some bin \<and>
           started (snd (onmessage h now n msg s)) = started s @ [new_source now n bin s] \<and>
           audioQueue (snd (onmessage h now n msg s)) = audioQueue s @ [new_source now n bin s] \<and>
           nextStartTime (snd (onmessage h now n msg s)) = src_end (new_source now n bin s)"
proof -
  obtain bin where bin: "audioBinary msg = Some bin" "even (length bin)" "bin \<noteq> []"
    and intent: "shouldBeConnected s"
    using assms by (auto simp: schedules_def split: option.splits)
  let ?s1 = "if turnComplete msg \<and> \<not> isPlaying s then s\<lparr> voiceState := listening \<rparr> else s"
  have s1: "started ?s1 = started s" "audioQueue ?s1 = audioQueue s"
    "nextStartTime ?s1 = nextStartTime s" "new_source now n bin ?s1 = new_source now n bin s"
    by (simp_all add: new_source_def)
  have "fst (handle_audio now n bin ?s1) = None"
    "started (snd (handle_audio now n bin ?s1)) = started ?s1 @ [new_source now n bin ?s1]"
    "audioQueue (snd (handle_audio now n bin ?s1)) = audioQueue ?s1 @ [new_source now n bin ?s1]"
    "nextStartTime (snd (handle_audio now n bin ?s1)) = src_end (new_source now n bin ?s1)"
    using handle_audio_schedules [of bin now n ?s1] bin by auto
  then show ?thesis
    using intent bin s1
    by (auto simp: onmessage_def Let_def tool_calls_frame split: option.splits)
qed

lemma onmessage_inv:
  assumes "cursor_inv k t s" and "t \<le> now"
  shows "cursor_inv k now (snd (onmessage h now n msg s))"
proof -
  let ?s' = "snd (onmessage h now n msg s)"
  consider (same) "started ?s' = started s" "audioQueue ?s' = audioQueue s"
      "nextStartTime ?s' = nextStartTime s"
    | (new) bin where "started ?s' = started s @ [new_source now n bin s]"
      "audioQueue ?s' = audioQueue s @ [new_source now n bin s]"
      "nextStartTime ?s' = src_end (new_source now n bin s)"
    using onmessage_without_audio [of msg s h now n] onmessage_with_audio [of msg s h now n]
    by blast
  then show ?thesis
  proof cases
    case same
    then have "cursor_inv k now ?s' = cursor_inv k now s"
      by (intro cursor_inv_cong)
    then show ?thesis
      using assms cursor_inv_later by blast
  next
    case new
    moreover have "k \<le> length (started s)"
      using assms by (simp add: cursor_inv_def)
    ultimately show ?thesis
      by (simp add: cursor_inv_def new_source_def)
  qed
qed

lemma remove1_empty: "remove1 x q = [] \<Longrightarrow> l \<in> set q \<Longrightarrow> l = x"
  by (cases q) (auto split: if_splits)

lemma ended_inv:
  assumes "cursor_inv k t s" and "t \<le> now" and "src_end src \<le> now"
  shows "cursor_inv k now (source_onended src now s)"
proof (cases "k < length (started s)")
  case False
  then show ?thesis
    using assms by (simp add: cursor_inv_def source_onended_def Let_def)
next
  case True
  define l where "l = last (started s)"
  have inv: "0 \<le> src_duration l" "src_end l \<le> nextStartTime s"
    "nextStartTime s = src_end l \<or> nextStartTime s \<le> t"
    "l \<in> set (audioQueue s) \<or> src_end l \<le> t"
    using assms(1) True by (simp_all add: cursor_inv_def Let_def l_def)
  show ?thesis
  proof (cases "remove1 src (audioQueue s) = []")
    case drained: True
    have "src_end l \<le> now"
      using inv(4) remove1_empty [OF drained] assms(2,3) by auto
    then show ?thesis
      using True drained inv(1)
      by (simp add: cursor_inv_def source_onended_def Let_def l_def)
  next
    case False
    have "l \<in> set (remove1 src (audioQueue s)) \<or> src_end l \<le> now"
      using inv(4) assms(2,3) by (cases "l = src") auto
    moreover have "nextStartTime s = src_end l \<or> nextStartTime s \<le> now"
      using inv(3) assms(2) by auto
    ultimately show ?thesis
      using True False inv(1,2)
      by (simp add: cursor_inv_def source_onended_def Let_def l_def)
  qed
qed

lemma quiet_inv:
  assumes "quiet e"
  shows "cursor_inv k t (step h s e) = cursor_inv k t s"
proof (rule cursor_inv_cong)
  show "started (step h s e) = started s"
    using assms
    by (cases e)
       (simp_all add: step_def connect_def attemptConnection_def toggleMute_def
          microphone_granted_def onopen_def promise_then_frame promise_resolved_def Let_def
          fold_run_chained_frame)
  show "nextStartTime (step h s e) = nextStartTime s"
    using assms
    by (cases e)
       (simp_all add: step_def connect_def attemptConnection_def toggleMute_def
          microphone_granted_def onopen_def promise_then_frame promise_resolved_def Let_def
          fold_run_chained_frame)
  show "audioQueue (step h s e) = audioQueue s"
    using assms
    by (cases e)
       (simp_all add: step_def connect_def attemptConnection_def toggleMute_def
          microphone_granted_def onopen_def promise_then_frame promise_resolved_def Let_def
          fold_run_chained_frame)
qed

lemma run_inv:
  "clock_ok t (es @ [OnMessage n msg now]) \<Longrightarrow> cursor_inv k t s \<Longrightarrow>
     \<exists>t' \<le> now. cursor_inv k t' (run h s es)"
proof (induction es arbitrary: t s)
  case Nil
  then show ?case by (auto simp: run_Nil)
next
  case (Cons e es)
  show ?case
  proof (cases e)
    case (OnMessage n' m' now')
    then have "t \<le> now'" "clock_ok now' (es @ [OnMessage n msg now])"
      using Cons.prems(1) by simp_all
    moreover have "cursor_inv k now' (step h s e)"
      using onmessage_inv [OF Cons.prems(2) \<open>t \<le> now'\<close>] OnMessage by (simp add: step_def)
    ultimately show ?thesis
      using Cons.IH by (simp add: run_Cons)
  next
    case (SourceEnded src now')
    then have "t \<le> now'" "src_end src \<le> now'" "clock_ok now' (es @ [OnMessage n msg now])"
      using Cons.prems(1) by simp_all
    moreover have "cursor_inv k now' (step h s e)"
      using ended_inv [OF Cons.prems(2) \<open>t \<le> now'\<close> \<open>src_end src \<le> now'\<close>] SourceEnded
      by (simp add: step_def)
    ultimately show ?thesis
      using Cons.IH by (simp add: run_Cons)
  next
    case Connect
    then have "clock_ok t (es @ [OnMessage n msg now])"
      using Cons.prems(1) by simp
    moreover have "cursor_inv k t (step h s e)"
      using quiet_inv [of e k t h s] Cons.prems(2) Connect by simp
    ultimately show ?thesis
      using Cons.IH by (simp add: run_Cons)
  next
    case ToggleMute
    then have "clock_ok t (es @ [OnMessage n msg now])"
      using Cons.prems(1) by simp
    moreover have "cursor_inv k t (step h s e)"
      using quiet_inv [of e k t h s] Cons.prems(2) ToggleMute by simp
    ultimately show ?thesis
      using Cons.IH by (simp add: run_Cons)
  next
    case (MicrophoneGranted m)
    then have "clock_ok t (es @ [OnMessage n msg now])"
      using Cons.prems(1) by simp
    moreover have "cursor_inv k t (step h s e)"
      using quiet_inv [of e k t h s] Cons.prems(2) MicrophoneGranted by simp
    ultimately show ?thesis
      using Cons.IH by (simp add: run_Cons)
  next
    case (OnOpen m)
    then have "clock_ok t (es @ [OnMessage n msg now])"
      using Cons.prems(1) by simp
    moreover have "cursor_inv k t (step h s e)"
      using quiet_inv [of e k t h s] Cons.prems(2) OnOpen by simp
    ultimately show ?thesis
      using Cons.IH by (simp add: run_Cons)
  next
    case (PromiseResolved m)
    then have "clock_ok t (es @ [OnMessage n msg now])"
      using Cons.prems(1) by simp
    moreover have "cursor_inv k t (step h s e)"
      using quiet_inv [of e k t h s] Cons.prems(2) PromiseResolved by simp
    ultimately show ?thesis
      using Cons.IH by (simp add: run_Cons)
  qed (use Cons.prems(1) in simp_all)
qed

lemma source_onended_drain:
  "(audioQueue (source_onended src now s) = [] \<longleftrightarrow> remove1 src (audioQueue s) = []) \<and>
   (audioQueue (source_onended src now s) = [] \<longrightarrow>
      nextStartTime (source_onended src now s) = now)"
  by (simp add: source_onended_def Let_def)

text \<open>
  Take any message handled after a stretch of messages, playback completions and quiet
  events in which the clock readings do not decrease and every completion is observed no
  earlier than the end of its source's window. Either the message starts no buffer, or it
  starts exactly one, at \<open>max\<close> of the clock and the cursor, and moves the cursor to that
  buffer's end. If a buffer was started earlier in the stretch, the new start time is
  \<open>max\<close> of the clock and the previous buffer's end. A completion that empties the queue
  sets the cursor to the clock.
\<close>

lemma playback_windows_in_a_stretch:
  assumes "clock_ok t (es @ [OnMessage n msg now])"
  shows "(let s1 = run h s es; s2 = step h s1 (OnMessage n msg now) in
          (started s2 = started s1 \<and> audioQueue s2 = audioQueue s1 \<and>
           nextStartTime s2 = nextStartTime s1 \<and>
           \<not> schedules msg s1) \<or>
          (\<exists>src. started s2 = started s1 @ [src] \<and> audioQueue s2 = audioQueue s1 @ [src] \<and>
             src_start src = max now (nextStartTime s1) \<and> nextStartTime s2 = src_end src \<and>
             (length (started s) < length (started s1) \<longrightarrow>
                src_start src = max now (src_end (last (started s1))) \<and>
                src_end (last (started s1)) \<le> src_start src \<and>
                src_start (last (started s1)) \<le> src_start src))) \<and>
         (audioQueue (source_onended src' now' s') = [] \<longrightarrow>
            nextStartTime (source_onended src' now' s') = now')"
proof -
  define s1 where "s1 = run h s es"
  define s2 where "s2 = step h s1 (OnMessage n msg now)"
  have s2: "s2 = snd (onmessage h now n msg s1)"
    by (simp add: s2_def step_def)
  obtain t' where t': "t' \<le> now" and inv: "cursor_inv (length (started s)) t' s1"
    using run_inv [OF assms cursor_inv_start] unfolding s1_def by blast
  consider (same) "started s2 = started s1" "audioQueue s2 = audioQueue s1"
      "nextStartTime s2 = nextStartTime s1"
      "\<not> schedules msg s1"
    | (new) bin where "started s2 = started s1 @ [new_source now n bin s1]"
      "audioQueue s2 = audioQueue s1 @ [new_source now n bin s1]"
      "nextStartTime s2 = src_end (new_source now n bin s1)"
    using onmessage_without_audio [of msg s1 h now n] onmessage_with_audio [of msg s1 h now n]
    unfolding s2 by blast
  then have "(started s2 = started s1 \<and> audioQueue s2 = audioQueue s1 \<and>
           nextStartTime s2 = nextStartTime s1 \<and>
           \<not> schedules msg s1) \<or>
          (\<exists>src. started s2 = started s1 @ [src] \<and> audioQueue s2 = audioQueue s1 @ [src] \<and>
             src_start src = max now (nextStartTime s1) \<and> nextStartTime s2 = src_end src \<and>
             (length (started s) < length (started s1) \<longrightarrow>
                src_start src = max now (src_end (last (started s1))) \<and>
                src_end (last (started s1)) \<le> src_start src \<and>
                src_start (last (started s1)) \<le> src_start src))"
  proof cases
    case same
    then show ?thesis by blast
  next
    case new
    let ?src = "new_source now n bin s1"
    have start: "src_start ?src = max now (nextStartTime s1)"
      by (simp add: new_source_def)
    have "src_start ?src = max now (src_end (last (started s1))) \<and>
          src_end (last (started s1)) \<le> src_start ?src \<and>
          src_start (last (started s1)) \<le> src_start ?src"
      if "length (started s) < length (started s1)"
    proof -
      define l where "l = last (started s1)"
      have "0 \<le> src_duration l" "src_end l \<le> nextStartTime s1"
        "nextStartTime s1 = src_end l \<or> nextStartTime s1 \<le> t'"
        using inv that by (simp_all add: cursor_inv_def Let_def l_def)
      then show ?thesis
        using t' unfolding start l_def [symmetric] by (auto simp: src_end_def)
    qed
    with new start show ?thesis by blast
  qed
  then show ?thesis
    using source_onended_drain [of src' now' s'] unfolding s1_def s2_def Let_def by blast
qed

lemma playback_windows_in_a_stretch_example:
  "clock_ok 0 ([OnMessage 0 audio_frame 1, OnMessage 0 audio_frame 1]
      @ [OnMessage 0 audio_frame 1]) \<and>
   map src_start (started (run None (run None initial session_open)
      [OnMessage 0 audio_frame 1, OnMessage 0 audio_frame 1, OnMessage 0 audio_frame 1]))
     = [1, 1 + 1 / 12000, 1 + 2 / 12000] \<and>
   length (started (run None initial session_open))
     < length (started (run None (run None initial session_open)
         [OnMessage 0 audio_frame 1, OnMessage 0 audio_frame 1])) \<and>
   audioQueue (source_onended first_source 2
      (step None (run None initial session_open) (OnMessage 0 audio_frame 1))) = [] \<and>
   nextStartTime (source_onended first_source 2
      (step None (run None initial session_open) (OnMessage 0 audio_frame 1))) = 2"
  using playback_windows_in_a_stretch
          [where t = 0 and n = 0 and msg = audio_frame and now = 1 and h = None
             and es = "[OnMessage 0 audio_frame 1, OnMessage 0 audio_frame 1]"
             and s = "run None initial session_open" and src' = first_source and now' = 2
             and s' = "step None (run None initial session_open) (OnMessage 0 audio_frame 1)"]
  by (simp add: audio_frame_def first_source_def session_open_def hook_defs Let_def)

text \<open>
  C1 at a concrete run: a frame of the first session is started at clock reading 1 and the
  user disconnects, which resets the cursor to 0. The completion of that frame's source is
  delivered afterwards; \<open>onended\<close>, which checks no intent, finds the queue empty and
  writes the old context's clock reading 2 into the cursor. The user connects again, and
  the first frame of the second session arrives when the new context's clock reads 1/2.
  It is started at 2, which is neither the clock nor the end of the previous entry
  (1 + 1/12000): the new session's first buffer waits for a time its own clock has not
  reached. Without the late completion the same frame is started at the clock, 1/2.
\<close>

theorem late_completion_delays_next_session:
  "nextStartTime (run None initial disconnect_while_speaking) = 0 \<and>
   nextStartTime (run None initial late_completion) = 2 \<and>
   audioQueue (run None initial (late_completion @ [Connect, MicrophoneGranted 1, OnOpen 1,
      PromiseResolved 1])) = [] \<and>
   map src_start (started (run None initial (disconnect_while_speaking @ second_session)))
     = [1, 1 / 2] \<and>
   map src_start (started (run None initial (late_completion @ second_session))) = [1, 2] \<and>
   map src_ctx (started (run None initial (late_completion @ second_session))) = [0, 1] \<and>
   src_end first_source = 1 + 1 / 12000"
  by (simp add: late_completion_def second_session_def disconnect_while_speaking_def
      audio_frame_def first_source_def session_open_def src_end_def hook_defs Let_def)

subsection \<open>The message callback as a whole\<close>

lemma handle_audio_voiceState: "voiceState (snd (handle_audio now n bin s)) = speaking"
  by (simp add: handle_audio_def Let_def)

lemma onmessage_reaches_loop:
  assumes "shouldBeConnected s" and "decodes msg"
  shows "\<exists>s'. onmessage h now n msg s = tool_calls h n (invocations msg) s' \<and>
           toolResponses s' = toolResponses s \<and> commands s' = commands s \<and>
           chainedOn s' = chainedOn s \<and> resolved s' = resolved s \<and> rejected s' = rejected s"
proof -
  let ?s1 = "if turnComplete msg \<and> \<not> isPlaying s then s\<lparr> voiceState := listening \<rparr> else s"
  show ?thesis
  proof (cases "audioBinary msg")
    case None
    then have "onmessage h now n msg s = tool_calls h n (invocations msg) ?s1"
      using assms by (simp add: onmessage_def Let_def invocations_def split: option.splits)
    then show ?thesis
      by (intro exI [of _ ?s1]) simp
  next
    case (Some bin)
    then have bin: "even (length bin)" "bin \<noteq> []"
      using assms(2) by (simp_all add: decodes_def)
    let ?s2 = "snd (handle_audio now n bin ?s1)"
    have "fst (handle_audio now n bin ?s1) = None"
      using handle_audio_schedules [OF bin] by blast
    then have "onmessage h now n msg s = tool_calls h n (invocations msg) ?s2"
      using assms Some
      by (auto simp: onmessage_def Let_def invocations_def prod_eq_iff
          split: option.splits if_splits)
    moreover have "toolResponses ?s2 = toolResponses s" "commands ?s2 = commands s"
      "chainedOn ?s2 = chainedOn s" "resolved ?s2 = resolved s" "rejected ?s2 = rejected s"
      by (simp_all add: handle_audio_def Let_def)
    ultimately show ?thesis
      by blast
  qed
qed

lemma onmessage_skips_loop:
  assumes "\<not> (shouldBeConnected s \<and> decodes msg)"
  shows "toolResponses (snd (onmessage h now n msg s)) = toolResponses s \<and>
         commands (snd (onmessage h now n msg s)) = commands s \<and>
         chainedOn (snd (onmessage h now n msg s)) = chainedOn s \<and>
         (fst (onmessage h now n msg s) = None \<longleftrightarrow> \<not> shouldBeConnected s)"
proof (cases "shouldBeConnected s")
  case False
  then show ?thesis by (simp add: onmessage_def)
next
  case True
  then obtain bin where bin: "audioBinary msg = Some bin" "odd (length bin) \<or> bin = []"
    using assms by (auto simp: decodes_def split: option.splits)
  let ?s1 = "if turnComplete msg \<and> \<not> isPlaying s then s\<lparr> voiceState := listening \<rparr> else s"
  have "fst (handle_audio now n bin ?s1) \<noteq> None"
    using handle_audio_fails [OF bin(2)] by blast
  then have "onmessage h now n msg s = handle_audio now n bin ?s1"
    using True bin(1) by (auto simp: onmessage_def Let_def)
  moreover have "toolResponses (snd (handle_audio now n bin ?s1)) = toolResponses s"
    "commands (snd (handle_audio now n bin ?s1)) = commands s"
    "chainedOn (snd (handle_audio now n bin ?s1)) = chainedOn s"
    by (simp_all add: handle_audio_def Let_def)
  ultimately show ?thesis
    using True \<open>fst (handle_audio now n bin ?s1) \<noteq> None\<close> by simp
qed

lemma onmessage_commands:
  "commands (snd (onmessage h now n msg s))
     = commands s @
       (if shouldBeConnected s \<and> decodes msg \<and> h \<noteq> None
        then map description (invoked h (filter is_generate (invocations msg))) else [])"
proof (cases "shouldBeConnected s \<and> decodes msg")
  case True
  then obtain s' where "onmessage h now n msg s = tool_calls h n (invocations msg) s'"
    "commands s' = commands s"
    using onmessage_reaches_loop [of s msg h now n] by blast
  then show ?thesis
    using True loop_commands [of h n "invocations msg" s'] by simp
next
  case False
  then show ?thesis
    using onmessage_skips_loop [OF False] by auto
qed

lemma onmessage_responses:
  "toolResponses (snd (onmessage h now n msg s))
     = toolResponses s @
       (if shouldBeConnected s \<and> decodes msg \<and> n \<in> set (resolved s)
        then map (ack n) (takeWhile (completes h) (filter is_generate (invocations msg)))
        else [])"
proof (cases "shouldBeConnected s \<and> decodes msg")
  case True
  then obtain s' where "onmessage h now n msg s = tool_calls h n (invocations msg) s'"
    "toolResponses s' = toolResponses s" "resolved s' = resolved s"
    using onmessage_reaches_loop [of s msg h now n] by blast
  then show ?thesis
    using True loop_responses [of h n "invocations msg" s'] by simp
next
  case False
  then show ?thesis
    using onmessage_skips_loop [OF False] by auto
qed

lemma onmessage_chained:
  "chainedOn (snd (onmessage h now n msg s))
     = chainedOn s @
       (if shouldBeConnected s \<and> decodes msg \<and> n \<notin> set (resolved s) \<and> n \<notin> set (rejected s)
        then map (chained_ack n) (takeWhile (completes h) (filter is_generate (invocations msg)))
        else [])"
proof (cases "shouldBeConnected s \<and> decodes msg")
  case True
  then obtain s' where "onmessage h now n msg s = tool_calls h n (invocations msg) s'"
    "chainedOn s' = chainedOn s" "resolved s' = resolved s" "rejected s' = rejected s"
    using onmessage_reaches_loop [of s msg h now n] by blast
  then show ?thesis
    using True loop_chained [of h n "invocations msg" s'] by simp
next
  case False
  then show ?thesis
    using onmessage_skips_loop [OF False] by auto
qed

lemma onmessage_exception:
  "fst (onmessage h now n msg s) = None \<longleftrightarrow>
     \<not> shouldBeConnected s \<or>
     decodes msg \<and> list_all (completes h) (filter is_generate (invocations msg))"
proof (cases "shouldBeConnected s \<and> decodes msg")
  case True
  then obtain s' where "onmessage h now n msg s = tool_calls h n (invocations msg) s'"
    using onmessage_reaches_loop [of s msg h now n] by blast
  then show ?thesis
    using True loop_exception [of h n "invocations msg" s'] by simp
next
  case False
  then show ?thesis
    using onmessage_skips_loop [OF False, of h now n] by auto
qed

lemma onmessage_voiceState_exact:
  "voiceState (snd (onmessage h now n msg s))
     = (if shouldBeConnected s \<and> audioBinary msg \<noteq> None then speaking
        else if shouldBeConnected s \<and> turnComplete msg \<and> \<not> isPlaying s then listening
        else voiceState s)"
  by (cases "audioBinary msg")
     (auto simp: onmessage_def Let_def tool_calls_frame handle_audio_voiceState
        split: option.splits)

lemma onmessage_playback:
  "started (snd (onmessage h now n msg s))
     = started s @ (if schedules msg s then [new_source now n (payload msg) s] else []) \<and>
   audioQueue (snd (onmessage h now n msg s))
     = audioQueue s @ (if schedules msg s then [new_source now n (payload msg) s] else []) \<and>
   nextStartTime (snd (onmessage h now n msg s))
     = (if schedules msg s then src_end (new_source now n (payload msg) s)
        else nextStartTime s)"
proof (cases "schedules msg s")
  case True
  then show ?thesis
    using onmessage_with_audio [OF True, of h now n] by (auto simp: payload_def)
next
  case False
  then show ?thesis
    using onmessage_without_audio [OF False, of h now n] by simp
qed

lemma fold_run_chained_responses:
  "toolResponses (fold (run_chained n) cs s)
     = toolResponses s @
       concat (map (\<lambda>c. case c of
                           CloseSession \<Rightarrow> []
                         | SendToolResponse i nm \<Rightarrow>
                             [\<lparr> tr_session = n, tr_id = i, tr_name = nm,
                                tr_result = ''ok, system generation started'' \<rparr>]) cs)"
  by (induction cs arbitrary: s) (simp_all add: run_chained_def split: chained.splits)

lemma promise_resolved_responses:
  assumes "n \<notin> set (resolved s)" and "n \<notin> set (rejected s)"
  shows "toolResponses (promise_resolved n s) = toolResponses s @ waiting_acks n s"
  using assms
  by (simp add: promise_resolved_def Let_def fold_run_chained_responses waiting_acks_def
      comp_def)

lemma waiting_acks_append:
  assumes "chainedOn s' = chainedOn s @ map (chained_ack n) fcs"
  shows "waiting_acks n s' = waiting_acks n s @ map (ack n) fcs"
  using assms by (simp add: waiting_acks_def chained_ack_def ack_def comp_def)

lemma onmessage_promise_frame:
  "resolved (snd (onmessage h now n msg s)) = resolved s"
  "rejected (snd (onmessage h now n msg s)) = rejected s"
proof -
  have t: "resolved (snd (tool_calls h n fcs s')) = resolved s'"
    "rejected (snd (tool_calls h n fcs s')) = rejected s'" for fcs s'
    by (rule tool_calls_preserves; simp add: promise_then_frame)+
  show "resolved (snd (onmessage h now n msg s)) = resolved s"
    by (simp add: onmessage_def Let_def t handle_audio_def split: option.splits)
  show "rejected (snd (onmessage h now n msg s)) = rejected s"
    by (simp add: onmessage_def Let_def t handle_audio_def split: option.splits)
qed

subsection \<open>Acknowledging command invocations\<close>

text \<open>
  C6, as stated, at a concrete message: with a handler that throws, the handler is invoked
  with the declared argument, the exception leaves the message callback, and no
  acknowledgment is sent or left waiting on the session promise.
\<close>

theorem handler_throws_counterexample:
  "fst (onmessage failing_handler 1 0 generate_request
      (run failing_handler initial session_open)) = Some HandlerError \<and>
   commands (snd (onmessage failing_handler 1 0 generate_request
      (run failing_handler initial session_open))) = [Some ''warp drive''] \<and>
   toolResponses (snd (onmessage failing_handler 1 0 generate_request
      (run failing_handler initial session_open))) = [] \<and>
   chainedOn (snd (onmessage failing_handler 1 0 generate_request
      (run failing_handler initial session_open))) = []"
  by (simp add: generate_request_def generate_call_def session_open_def failing_handler_def
      hook_defs Let_def)

text \<open>
  C6 (amended): for a message handled while the intent is true and whose audio part, if
  any, decodes, the handler is invoked at most once per \<open>generate_system\<close> invocation, in
  order and with the declared argument: on the invocations that complete and on the first
  that does not, when that one has arguments. An invocation does not complete when its
  arguments are missing or when the handler throws on its argument, and the callback ends
  without an exception exactly when all of them complete: the exception of a handler is
  not caught. The acknowledgments, each with its invocation's identifier and name, are
  those of the invocations that precede the first one that does not complete, in order,
  and they are handed to the session promise: sent at once when the promise is fulfilled;
  waiting, and sent after the acknowledgments already waiting when the promise is
  fulfilled later, when it is pending; never sent when it has been rejected. In every
  case the last error, the retry counter and the intent are untouched.
\<close>

theorem command_acknowledgments:
  assumes "shouldBeConnected s" and "decodes msg"
  shows "(n \<in> set (resolved s) \<longrightarrow>
            toolResponses (snd (onmessage h now n msg s))
              = toolResponses s @
                map (ack n) (takeWhile (completes h) (filter is_generate (invocations msg)))) \<and>
         (n \<notin> set (resolved s) \<and> n \<notin> set (rejected s) \<longrightarrow>
            toolResponses (snd (onmessage h now n msg s)) = toolResponses s \<and>
            waiting_acks n (snd (onmessage h now n msg s))
              = waiting_acks n s @
                map (ack n) (takeWhile (completes h) (filter is_generate (invocations msg))) \<and>
            toolResponses (promise_resolved n (snd (onmessage h now n msg s)))
              = toolResponses s @ waiting_acks n s @
                map (ack n) (takeWhile (completes h) (filter is_generate (invocations msg)))) \<and>
         (n \<notin> set (resolved s) \<and> n \<in> set (rejected s) \<longrightarrow>
            toolResponses (snd (onmessage h now n msg s)) = toolResponses s \<and>
            chainedOn (snd (onmessage h now n msg s)) = chainedOn s) \<and>
         (fst (onmessage h now n msg s) = None
            \<longleftrightarrow> list_all (completes h) (filter is_generate (invocations msg))) \<and>
         commands (snd (onmessage h now n msg s))
           = commands s @
             (if h = None then []
              else map description (invoked h (filter is_generate (invocations msg)))) \<and>
         error (snd (onmessage h now n msg s)) = error s \<and>
         retryCount (snd (onmessage h now n msg s)) = retryCount s \<and>
         shouldBeConnected (snd (onmessage h now n msg s))"
proof -
  let ?s' = "snd (onmessage h now n msg s)"
  let ?ok = "takeWhile (completes h) (filter is_generate (invocations msg))"
  have resp: "toolResponses ?s' = toolResponses s @ (if n \<in> set (resolved s) then map (ack n) ?ok else [])"
    using onmessage_responses [of h now n msg s] assms by simp
  have chain: "chainedOn ?s' = chainedOn s @
      (if n \<notin> set (resolved s) \<and> n \<notin> set (rejected s) then map (chained_ack n) ?ok else [])"
    using onmessage_chained [of h now n msg s] assms by simp
  have pending: "toolResponses ?s' = toolResponses s \<and>
      waiting_acks n ?s' = waiting_acks n s @ map (ack n) ?ok \<and>
      toolResponses (promise_resolved n ?s') = toolResponses s @ waiting_acks n s @ map (ack n) ?ok"
    if p: "n \<notin> set (resolved s) \<and> n \<notin> set (rejected s)"
  proof -
    have c: "chainedOn ?s' = chainedOn s @ map (chained_ack n) ?ok"
      using chain p by simp
    have w: "waiting_acks n ?s' = waiting_acks n s @ map (ack n) ?ok"
      by (rule waiting_acks_append [OF c])
    have "toolResponses (promise_resolved n ?s') = toolResponses ?s' @ waiting_acks n ?s'"
      using p by (intro promise_resolved_responses) (simp_all add: onmessage_promise_frame)
    then show ?thesis
      using resp p w by simp
  qed
  have exc: "fst (onmessage h now n msg s) = None
      \<longleftrightarrow> list_all (completes h) (filter is_generate (invocations msg))"
    using onmessage_exception [of h now n msg s] assms by simp
  have cmd: "commands ?s' = commands s @
      (if h = None then [] else map description (invoked h (filter is_generate (invocations msg))))"
    using onmessage_commands [of h now n msg s] assms by simp
  have res: "n \<in> set (resolved s) \<longrightarrow> toolResponses ?s' = toolResponses s @ map (ack n) ?ok"
    using resp by simp
  have pen: "n \<notin> set (resolved s) \<and> n \<notin> set (rejected s) \<longrightarrow>
      toolResponses ?s' = toolResponses s \<and>
      waiting_acks n ?s' = waiting_acks n s @ map (ack n) ?ok \<and>
      toolResponses (promise_resolved n ?s') = toolResponses s @ waiting_acks n s @ map (ack n) ?ok"
    using pending by blast
  have rej: "n \<notin> set (resolved s) \<and> n \<in> set (rejected s) \<longrightarrow>
      toolResponses ?s' = toolResponses s \<and> chainedOn ?s' = chainedOn s"
    using resp chain by simp
  have fr: "error ?s' = error s" "retryCount ?s' = retryCount s" "shouldBeConnected ?s'"
    using assms(1) by (simp_all add: onmessage_frame)
  show ?thesis
    by (intro conjI) (rule res pen rej exc cmd fr)+
qed

theorem command_acknowledgments_witness:
  "shouldBeConnected (run accepting_handler initial session_open) \<and>
   decodes generate_request \<and>
   0 \<in> set (resolved (run accepting_handler initial session_open)) \<and>
   toolResponses (snd (onmessage accepting_handler 1 0 generate_request
       (run accepting_handler initial session_open))) = [ack 0 generate_call] \<and>
   fst (onmessage accepting_handler 1 0 generate_request
       (run accepting_handler initial session_open)) = None \<and>
   commands (snd (onmessage accepting_handler 1 0 generate_request
       (run accepting_handler initial session_open))) = [Some ''warp drive''] \<and>
   shouldBeConnected (run accepting_handler initial open_pending) \<and>
   0 \<notin> set (resolved (run accepting_handler initial open_pending)) \<and>
   0 \<notin> set (rejected (run accepting_handler initial open_pending)) \<and>
   toolResponses (snd (onmessage accepting_handler 1 0 generate_request
       (run accepting_handler initial open_pending))) = [] \<and>
   toolResponses (promise_resolved 0 (snd (onmessage accepting_handler 1 0 generate_request
       (run accepting_handler initial open_pending)))) = [ack 0 generate_call] \<and>
   shouldBeConnected (run accepting_handler initial rejected_once) \<and>
   0 \<notin> set (resolved (run accepting_handler initial rejected_once)) \<and>
   0 \<in> set (rejected (run accepting_handler initial rejected_once)) \<and>
   toolResponses (snd (onmessage accepting_handler 1 0 generate_request
       (run accepting_handler initial rejected_once))) = [] \<and>
   chainedOn (snd (onmessage accepting_handler 1 0 generate_request
       (run accepting_handler initial rejected_once))) = []"
  using command_acknowledgments
          [of "run accepting_handler initial session_open" generate_request 0
              accepting_handler 1]
    command_acknowledgments
          [of "run accepting_handler initial open_pending" generate_request 0
              accepting_handler 1]
    command_acknowledgments
          [of "run accepting_handler initial rejected_once" generate_request 0
              accepting_handler 1]
  by (simp add: generate_request_def generate_call_def session_open_def open_pending_def
      rejected_once_def accepting_handler_def decodes_def ack_def hook_defs Let_def)

subsection \<open>Invocations of other names\<close>

text \<open>
  C9: an invocation whose name is not \<open>generate_system\<close> is ignored entirely, and the rest
  of the message is processed. Handling a message gives the same exception and the same
  state as handling it with those invocations removed from its tool-call list: the loop
  passes over one wherever it stands in the list, and a message whose only invocation has
  another name is handled as if it carried no tool call. What handling does is fixed by
  the other parts alone. The handler is invoked on the \<open>generate_system\<close> invocations
  only and the acknowledgments sent, or chained on a pending promise, are theirs; a frame
  of audio that decodes is started and queued and moves the cursor; the voice state
  becomes speaking on audio and listening on a turn-complete with nothing playing.
\<close>

theorem other_invocations_ignored:
  "onmessage h now n msg s
     = onmessage h now n (msg\<lparr> toolCall := map_option (filter is_generate) (toolCall msg) \<rparr>) s \<and>
   (fc_name fc \<noteq> ''generate_system'' \<longrightarrow>
      tool_calls h n (fcs @ fc # fcs') s = tool_calls h n (fcs @ fcs') s \<and>
      onmessage h now n (msg\<lparr> toolCall := Some [fc] \<rparr>) s
        = onmessage h now n (msg\<lparr> toolCall := None \<rparr>) s) \<and>
   commands (snd (onmessage h now n msg s))
     = commands s @
       (if shouldBeConnected s \<and> decodes msg \<and> h \<noteq> None
        then map description (invoked h (filter is_generate (invocations msg))) else []) \<and>
   toolResponses (snd (onmessage h now n msg s))
     = toolResponses s @
       (if shouldBeConnected s \<and> decodes msg \<and> n \<in> set (resolved s)
        then map (ack n) (takeWhile (completes h) (filter is_generate (invocations msg)))
        else []) \<and>
   chainedOn (snd (onmessage h now n msg s))
     = chainedOn s @
       (if shouldBeConnected s \<and> decodes msg \<and> n \<notin> set (resolved s) \<and> n \<notin> set (rejected s)
        then map (chained_ack n) (takeWhile (completes h) (filter is_generate (invocations msg)))
        else []) \<and>
   started (snd (onmessage h now n msg s))
     = started s @ (if schedules msg s then [new_source now n (payload msg) s] else []) \<and>
   audioQueue (snd (onmessage h now n msg s))
     = audioQueue s @ (if schedules msg s then [new_source now n (payload msg) s] else []) \<and>
   nextStartTime (snd (onmessage h now n msg s))
     = (if schedules msg s then src_end (new_source now n (payload msg) s)
        else nextStartTime s) \<and>
   voiceState (snd (onmessage h now n msg s))
     = (if shouldBeConnected s \<and> audioBinary msg \<noteq> None then speaking
        else if shouldBeConnected s \<and> turnComplete msg \<and> \<not> isPlaying s then listening
        else voiceState s)"
proof -
  have "tool_calls h n (fcs @ fc # fcs') s = tool_calls h n (fcs @ fcs') s"
    if "fc_name fc \<noteq> ''generate_system''"
    using that tool_calls_filter [of h n "fcs @ fc # fcs'" s]
      tool_calls_filter [of h n "fcs @ fcs'" s]
    by (simp add: is_generate_def)
  moreover have "onmessage h now n (msg\<lparr> toolCall := Some [fc] \<rparr>) s
        = onmessage h now n (msg\<lparr> toolCall := None \<rparr>) s"
    if "fc_name fc \<noteq> ''generate_system''"
    using that by (simp add: onmessage_def Let_def prod_eq_iff split: option.splits)
  ultimately have other: "fc_name fc \<noteq> ''generate_system'' \<longrightarrow>
      tool_calls h n (fcs @ fc # fcs') s = tool_calls h n (fcs @ fcs') s \<and>
      onmessage h now n (msg\<lparr> toolCall := Some [fc] \<rparr>) s
        = onmessage h now n (msg\<lparr> toolCall := None \<rparr>) s"
    by blast
  note pb = onmessage_playback [of h now n msg s]
  show ?thesis
    by (intro conjI)
       (rule other onmessage_filter onmessage_commands onmessage_responses onmessage_chained
          pb [THEN conjunct1] pb [THEN conjunct2, THEN conjunct1]
          pb [THEN conjunct2, THEN conjunct2] onmessage_voiceState_exact)+
qed

theorem other_invocations_ignored_witness:
  "fc_name other_call \<noteq> ''generate_system'' \<and>
   tool_calls accepting_handler 0 ([generate_call] @ other_call # [second_call])
      (run accepting_handler initial session_open)
     = tool_calls accepting_handler 0 ([generate_call] @ [second_call])
         (run accepting_handler initial session_open) \<and>
   commands (snd (onmessage accepting_handler 1 0 mixed_message
      (run accepting_handler initial session_open))) = [Some ''warp drive'', Some ''V8 engine''] \<and>
   toolResponses (snd (onmessage accepting_handler 1 0 mixed_message
      (run accepting_handler initial session_open))) = [ack 0 generate_call, ack 0 second_call] \<and>
   chainedOn (snd (onmessage accepting_handler 1 0 mixed_message
      (run accepting_handler initial session_open))) = [] \<and>
   started (snd (onmessage accepting_handler 1 0 mixed_message
      (run accepting_handler initial session_open))) = [first_source] \<and>
   audioQueue (snd (onmessage accepting_handler 1 0 mixed_message
      (run accepting_handler initial session_open))) = [first_source] \<and>
   nextStartTime (snd (onmessage accepting_handler 1 0 mixed_message
      (run accepting_handler initial session_open))) = 1 + 1 / 12000 \<and>
   voiceState (snd (onmessage accepting_handler 1 0 mixed_message
      (run accepting_handler initial session_open))) = speaking \<and>
   voiceState (run accepting_handler initial connected_once) = idle \<and>
   voiceState (snd (onmessage accepting_handler 1 0 turn_complete_message
      (run accepting_handler initial connected_once))) = listening \<and>
   commands (snd (onmessage accepting_handler 1 0 turn_complete_message
      (run accepting_handler initial connected_once))) = [] \<and>
   toolResponses (snd (onmessage accepting_handler 1 0 turn_complete_message
      (run accepting_handler initial connected_once))) = []"
proof -
  let ?s = "run accepting_handler initial session_open"
  let ?c = "run accepting_handler initial connected_once"
  note t = other_invocations_ignored
             [where fc = other_call and h = accepting_handler and n = 0 and now = 1
                and fcs = "[generate_call]" and fcs' = "[second_call]" and msg = mixed_message
                and s = ?s]
  note u = other_invocations_ignored
             [where h = accepting_handler and n = 0 and now = 1
                and msg = turn_complete_message and s = ?c]
  have s: "shouldBeConnected ?s" "resolved ?s = [0]" "commands ?s = []"
    "toolResponses ?s = []" "chainedOn ?s = []" "started ?s = []" "audioQueue ?s = []"
    "nextStartTime ?s = 0" "nextSource ?s = 0" "\<not> isPlaying ?s"
    by (simp_all add: session_open_def hook_defs)
  have c: "shouldBeConnected ?c" "resolved ?c = []" "rejected ?c = []" "commands ?c = []"
    "toolResponses ?c = []" "chainedOn ?c = []" "\<not> isPlaying ?c" "voiceState ?c = idle"
    by (simp_all add: connected_once_def hook_defs)
  have gens: "filter is_generate (invocations mixed_message) = [generate_call, second_call]"
    "filter is_generate (invocations turn_complete_message) = []"
    by (simp_all add: mixed_message_def turn_complete_message_def invocations_def
        is_generate_def generate_call_def other_call_def second_call_def)
  have ok: "completes accepting_handler generate_call" "completes accepting_handler second_call"
    "accepting_handler \<noteq> None"
    by (simp_all add: completes_def accepting_handler_def generate_call_def second_call_def)
  have desc: "description generate_call = Some ''warp drive''"
    "description second_call = Some ''V8 engine''"
    by (simp_all add: description_def generate_call_def second_call_def)
  have dec: "decodes mixed_message" "decodes turn_complete_message"
    by (simp_all add: decodes_def mixed_message_def turn_complete_message_def)
  have msgs: "audioBinary mixed_message \<noteq> None" "audioBinary turn_complete_message = None"
    "turnComplete turn_complete_message"
    by (simp_all add: mixed_message_def turn_complete_message_def)
  have hyp: "fc_name other_call \<noteq> ''generate_system''"
    by (simp add: other_call_def)
  have skip: "tool_calls accepting_handler 0 ([generate_call] @ other_call # [second_call]) ?s
     = tool_calls accepting_handler 0 ([generate_call] @ [second_call]) ?s"
    using t [THEN conjunct2, THEN conjunct1] hyp by blast
  have cmds: "commands (snd (onmessage accepting_handler 1 0 mixed_message ?s))
      = [Some ''warp drive'', Some ''V8 engine'']"
    unfolding t [THEN conjunct2, THEN conjunct2, THEN conjunct1] gens
    by (simp add: s dec ok desc invoked_def)
  have resp: "toolResponses (snd (onmessage accepting_handler 1 0 mixed_message ?s))
      = [ack 0 generate_call, ack 0 second_call]"
    unfolding t [THEN conjunct2, THEN conjunct2, THEN conjunct2, THEN conjunct1] gens
    by (simp add: s dec ok)
  have chain: "chainedOn (snd (onmessage accepting_handler 1 0 mixed_message ?s)) = []"
    unfolding t [THEN conjunct2, THEN conjunct2, THEN conjunct2, THEN conjunct2, THEN conjunct1]
    by (simp add: s)
  have sch: "schedules mixed_message ?s"
    by (simp add: schedules_def s mixed_message_def)
  have src: "new_source 1 0 (payload mixed_message) ?s = first_source"
    by (simp add: new_source_def payload_def mixed_message_def s first_source_def)
  have st: "started (snd (onmessage accepting_handler 1 0 mixed_message ?s)) = [first_source]"
    unfolding t [THEN conjunct2, THEN conjunct2, THEN conjunct2, THEN conjunct2, THEN conjunct2,
                 THEN conjunct1]
    by (simp add: sch src s)
  have q: "audioQueue (snd (onmessage accepting_handler 1 0 mixed_message ?s)) = [first_source]"
    unfolding t [THEN conjunct2, THEN conjunct2, THEN conjunct2, THEN conjunct2, THEN conjunct2,
                 THEN conjunct2, THEN conjunct1]
    by (simp add: sch src s)
  have cur: "nextStartTime (snd (onmessage accepting_handler 1 0 mixed_message ?s))
      = 1 + 1 / 12000"
    unfolding t [THEN conjunct2, THEN conjunct2, THEN conjunct2, THEN conjunct2, THEN conjunct2,
                 THEN conjunct2, THEN conjunct2, THEN conjunct1]
    by (simp add: sch src src_end_def first_source_def)
  have vs: "voiceState (snd (onmessage accepting_handler 1 0 mixed_message ?s)) = speaking"
    unfolding t [THEN conjunct2, THEN conjunct2, THEN conjunct2, THEN conjunct2, THEN conjunct2,
                 THEN conjunct2, THEN conjunct2, THEN conjunct2]
    by (simp add: s msgs)
  have idle: "voiceState ?c = idle"
    by (rule c)
  have vs2: "voiceState (snd (onmessage accepting_handler 1 0 turn_complete_message ?c))
      = listening"
    unfolding u [THEN conjunct2, THEN conjunct2, THEN conjunct2, THEN conjunct2, THEN conjunct2,
                 THEN conjunct2, THEN conjunct2, THEN conjunct2]
    by (simp add: c msgs)
  have cmds2: "commands (snd (onmessage accepting_handler 1 0 turn_complete_message ?c)) = []"
    unfolding u [THEN conjunct2, THEN conjunct2, THEN conjunct1] gens
    by (simp add: c invoked_def)
  have resp2: "toolResponses (snd (onmessage accepting_handler 1 0 turn_complete_message ?c)) = []"
    unfolding u [THEN conjunct2, THEN conjunct2, THEN conjunct2, THEN conjunct1] gens
    by (simp add: c)
  show ?thesis
    by (intro conjI) (rule hyp skip cmds resp chain st q cur vs idle vs2 cmds2 resp2)+
qed

subsection \<open>A playback completion after teardown\<close>

text \<open>
  Every change of the voice state, by cause: to idle by a teardown (a \<open>disconnect\<close>, a
  close, an initialization error, exhausted retries, or the teardown inside a retry
  timer); to listening by an on-open under a true intent; to speaking by a message with
  audio, or to listening by a turn-complete with nothing playing, both under a true
  intent; to listening by a playback completion that leaves the queue empty, whatever the
  intent. The state \<open>thinking\<close> is never entered.
\<close>

lemma timer_fires_voiceState:
  "voiceState (timer_fires k s) = voiceState s \<or> voiceState (timer_fires k s) = idle"
  by (simp add: timer_fires_def run_timer_def attemptConnection_def disconnect_def
      split: timer.splits)

lemma onmessage_voiceState:
  "voiceState (snd (onmessage h now n msg s)) = voiceState s \<or>
   shouldBeConnected s \<and>
     (voiceState (snd (onmessage h now n msg s)) = speaking \<and> audioBinary msg \<noteq> None \<or>
      voiceState (snd (onmessage h now n msg s)) = listening \<and> turnComplete msg \<and>
        \<not> isPlaying s \<and> audioBinary msg = None)"
  by (cases "audioBinary msg")
     (auto simp: onmessage_def Let_def tool_calls_frame handle_audio_voiceState
        split: option.splits)

lemma voiceState_step:
  "voiceState (step h s e) = voiceState s \<or>
   voiceState (step h s e) = idle \<and> torn_down (step h s e)
       \<and> e \<in> {Disconnect, InitializationError} \<union> range OnClose \<union> range OnError
              \<union> range PromiseRejected \<or>
   voiceState (step h s e) = idle \<and> e \<in> range TimerFires \<or>
   voiceState (step h s e) = listening \<and> shouldBeConnected s \<and> e \<in> range OnOpen \<or>
   shouldBeConnected s \<and>
     (\<exists>n msg now. e = OnMessage n msg now \<and>
        (voiceState (step h s e) = speaking \<and> audioBinary msg \<noteq> None \<or>
         voiceState (step h s e) = listening \<and> turnComplete msg \<and> \<not> isPlaying s)) \<or>
   voiceState (step h s e) = listening \<and> audioQueue (step h s e) = []
       \<and> (\<exists>src now. e = SourceEnded src now)"
proof (cases e)
  case (OnMessage n msg now)
  then show ?thesis
    using onmessage_voiceState [of h now n msg s] by (auto simp: step_def)
next
  case (TimerFires k)
  then show ?thesis
    using timer_fires_voiceState [of k s] by (auto simp: step_def)
next
  case (PromiseResolved n)
  then show ?thesis
    by (simp add: step_def promise_resolved_def Let_def fold_run_chained_frame)
next
  case (PromiseRejected n)
  then show ?thesis
    by (auto simp: step_def promise_rejected_def Let_def set_error_and_disconnect_def
        disconnect_torn_down) (simp_all add: disconnect_def)
next
  case (OnError n)
  then show ?thesis
    by (auto simp: step_def onerror_def set_error_and_disconnect_def disconnect_torn_down)
       (simp_all add: disconnect_def)
qed (auto simp: step_def connect_def attemptConnection_def toggleMute_def
       microphone_granted_def initialization_error_def set_error_and_disconnect_def
       onopen_def promise_then_frame onclose_def disconnect_torn_down source_onended_def Let_def,
     simp_all add: disconnect_def)

lemma thinking_unreachable: "voiceState (run h initial es) \<noteq> thinking"
proof (induction es rule: rev_induct)
  case Nil
  show ?case by (simp add: run_Nil initial_def)
next
  case (snoc e es)
  then show ?case
    using voiceState_step [of h "run h initial es" e] by (auto simp: run_snoc)
qed

text \<open>
  C8 at a concrete run: a frame is queued and the user disconnects, which tears everything
  down and leaves the voice state idle. When the completion of that frame's source is
  delivered afterwards, \<open>onended\<close>, the one callback without an intent check, finds the
  queue empty and sets the voice state to listening: a step from idle to listening with no
  open event, while the intent is false and nothing is connected.
\<close>

theorem late_completion_after_teardown:
  "torn_down (run None initial disconnect_while_speaking) \<and>
   voiceState (run None initial disconnect_while_speaking) = idle \<and>
   started (run None initial disconnect_while_speaking) = [first_source] \<and>
   stoppedSources (run None initial disconnect_while_speaking) = [0] \<and>
   voiceState (step None (run None initial disconnect_while_speaking)
      (SourceEnded first_source 2)) = listening \<and>
   \<not> shouldBeConnected (step None (run None initial disconnect_while_speaking)
      (SourceEnded first_source 2)) \<and>
   \<not> isConnected (step None (run None initial disconnect_while_speaking)
      (SourceEnded first_source 2))"
  by (simp add: disconnect_while_speaking_def audio_frame_def first_source_def session_open_def
      hook_defs Let_def torn_down_def)

end
